theory Spec2Isabelle
  imports Complex_Main "HOL-Library.Log_Nat" "HOL-Library.Multiset"
begin

text \<open>
  A shallow embedding of the collection pipeline of ScrapeX: the aggregation of
  \<^verbatim>\<open>DataOrganizer\<close> and, of \<^verbatim>\<open>TwitterPipeline\<close>, the cookie file, the login with
  retries, the collection loop, the resolution of parent posts and the order of the
  stages of a run. A function that acts on the outside world returns, besides its
  result, the trace of what it did; the outside world is a record of the answers it
  gives. The definitions come first, then the properties, one section for each part.
\<close>

section \<open>Data model\<close>

text \<open>
  A post as the pipeline reads it (the objects the scraping client yields). A field the
  code reads through \<^verbatim>\<open>||\<close>, \<^verbatim>\<open>?.\<close> or a truthiness test is optional; \<^verbatim>\<open>text\<close> is
  read unguarded by \<^verbatim>\<open>generateAnalytics\<close> (\<^verbatim>\<open>t.text.slice(0, 100)\<close>) and is a string;
  \<^verbatim>\<open>timestamp\<close> is a number, \<^verbatim>\<open>null\<close> or \<^verbatim>\<open>undefined\<close> (the property is missing).
  The flags are kept as their truthiness. Counts are natural numbers; they and their
  sums are taken to stay below \<open>2^53\<close>, where JavaScript's addition of integers is
  exact.
  Two source names are suffixed: \<^verbatim>\<open>id\<close> is \<open>id_t\<close> and \<^verbatim>\<open>text\<close> is \<open>text_t\<close>.
\<close>

text \<open>
  The timestamp of a post: \<^verbatim>\<open>null\<close>, \<^verbatim>\<open>undefined\<close> or a number. The number NaN is not
  represented: the order in which \<^verbatim>\<open>sort\<close> leaves an array that holds it, under a
  comparator that subtracts, depends on the implementation.
\<close>

datatype js_timestamp = Null | Undefined | At int

record tweet =
  id_t :: "string option"
  username :: "string option"
  text_t :: string
  timestamp :: js_timestamp
  isReply :: bool
  isRetweet :: bool
  likes :: "nat option"
  retweetCount :: "nat option"
  replies :: "nat option"
  photos :: "string list option"
  videos :: "string list option"
  urls :: "string list option"
  permanentUrl :: "string option"
  inReplyToStatusId :: "string option"
  inReplyToText :: "string option"

text \<open>
  One object of the persisted cookie file, as \<^verbatim>\<open>loadCookies\<close> reads it: every field may
  be absent, and the name may stand under \<^verbatim>\<open>key\<close> or under \<^verbatim>\<open>name\<close>.
\<close>

record cookie_entry =
  e_key :: "string option"
  e_name :: "string option"
  e_value :: "string option"
  e_domain :: "string option"
  e_path :: "string option"
  e_secure :: "bool option"
  e_httpOnly :: "bool option"

text \<open>
  A cookie object of the cookie library, which is what \<^verbatim>\<open>Cookie.fromJSON\<close> builds and
  what the client's \<^verbatim>\<open>getCookies\<close> returns; its domain and path may be \<^verbatim>\<open>null\<close>.
\<close>

record cookie =
  ck_key :: string
  ck_value :: string
  ck_domain :: "string option"
  ck_path :: "string option"
  ck_secure :: bool
  ck_httpOnly :: bool

text \<open>The files \<^verbatim>\<open>getPaths\<close> names, and the fine-tuning file.\<close>

datatype target = RawTweets | RawUrls | Stats | Summary | FineTuning

text \<open>
  What the pipeline does to the outside world and the warnings and errors it logs, in
  the order they happen. A message is kept by its kind and the values it interpolates;
  informational messages are left out. \<open>RandomDelay\<close> is a call of \<^verbatim>\<open>randomDelay\<close>, a
  pause of a random length between \<open>minDelay\<close> and \<open>maxDelay\<close>; \<open>SetTimeout d\<close> is the
  pause of \<open>d\<close> milliseconds between two login attempts.
\<close>

datatype event =
    WarnNoTweets
  | WarnInvalidDates nat
  | SetCookies "string list"
  | WarnLoadCookies string
  | WriteCookies "cookie_entry list"
  | WarnSaveCookies string
  | WarnSessionInvalid
  | WarnCookieCheck string
  | WarnFreshLogin
  | Login nat
  | WarnLogin nat string
  | SetTimeout nat
  | RandomDelay
  | WarnProfile string
  | GetTweet string
  | WarnFetchParent string string
  | GenerateAnalytics
  | WriteFile target
  | ErrorSaving string
  | ErrorMissingEnv "string list"
  | ProcessExit nat
  | ErrorInit
  | WarnNoTweetsDone
  | ErrorPipeline string
  | PromptSample
  | PrintSample "tweet list"
  | Logout
  | WarnCleanup string

text \<open>
  The configuration the constructor of the pipeline reads from the environment: each
  value is the integer parsed from a variable, or a default. They are counts and
  durations, kept as natural numbers (a negative bound of a loop would make it run as
  0 does).
\<close>

record twitter_config =
  maxTweets :: nat
  maxRetries :: nat
  retryDelay :: nat
  minDelay :: nat
  maxDelay :: nat

text \<open>
  What one login attempt meets: \<^verbatim>\<open>scraper.login\<close> throws, or it returns and
  \<^verbatim>\<open>scraper.isLoggedIn\<close> answers or throws.
\<close>

datatype login_outcome = LoginThrows string | Verified bool | VerifyThrows string

text \<open>
  The outside world of one run, as the answers it gives: the environment, the cookie
  file (or the message of the error reading or parsing it), the scraping client (an
  error is the message of the exception thrown), the file system, the date formatter
  and the user at the prompt. \<open>loginOutcome n\<close> is what attempt \<open>n\<close> meets;
  \<open>getTweet i p\<close> is the answer to the \<open>i\<close>-th call (from 0) of \<^verbatim>\<open>getTweet\<close>, for the
  post \<open>p\<close>; \<open>searchItems\<close> is what the search iterator yields, and \<open>searchError\<close> the
  exception it throws after them, if any; \<open>writeError k f\<close> is the error of writing file
  \<open>f\<close> in the \<open>k\<close>-th call of \<^verbatim>\<open>saveTweets\<close>.
\<close>

record world =
  env :: "string \<Rightarrow> string option"
  cookieFile :: "string + cookie_entry list"
  setCookiesError :: "string option"
  sessionCheck :: "string + bool"
  loginOutcome :: "nat \<Rightarrow> login_outcome"
  agentCookies :: "string + cookie list"
  cookieWriteError :: "string option"
  profile :: "string + nat option"
  searchItems :: "tweet option list"
  searchError :: "string option"
  getTweet :: "nat \<Rightarrow> string \<Rightarrow> string + tweet option"
  writeError :: "nat \<Rightarrow> target \<Rightarrow> string option"
  formatDate :: "int \<Rightarrow> string"
  showSample :: bool
  logoutError :: "string option"

section \<open>DataOrganizer.generateAnalytics\<close>

record top_tweet =
  top_id :: "string option"
  top_text :: string
  top_likes :: "nat option"
  top_retweetCount :: "nat option"
  top_url :: "string option"

record engagement_report =
  totalLikes :: nat
  totalRetweetCount :: nat
  totalReplies :: nat
  averageLikes :: string
  topTweets :: "top_tweet list"

record time_range =
  range_start :: string
  range_end :: string

record content_types =
  withImages :: nat
  withVideos :: nat
  withLinks :: nat
  textOnly :: nat

text \<open>The report; its field \<^verbatim>\<open>replies\<close> is \<open>replyTweets\<close> here (a post has a \<open>replies\<close> count).\<close>

record analytics =
  totalTweets :: nat
  directTweets :: nat
  replyTweets :: nat
  retweets :: nat
  engagement :: engagement_report
  timeRange :: time_range
  contentTypes :: content_types

subsection \<open>Numbers: the quotient of two counts and \<^verbatim>\<open>toFixed(2)\<close>\<close>

text \<open>
  The result of JavaScript's \<^verbatim>\<open>/\<close> on two non-negative integers: \<^verbatim>\<open>0 / 0\<close> is NaN, a
  positive number over zero is Infinity, and otherwise the quotient rounded to the nearest
  double (53 bits of mantissa, ties to even; the quotients here lie in the normal range).
\<close>

datatype jsnum = NaN | Infinity | Finite rat

definition pow2 :: "int \<Rightarrow> rat" where
  "pow2 k = (if 0 \<le> k then 2 ^ nat k else 1 / 2 ^ nat (- k))"

definition roundHalfEven :: "rat \<Rightarrow> int" where
  "roundHalfEven x =
     (let f = \<lfloor>x\<rfloor>; d = x - of_int f
      in if d < 1 / 2 then f else if 1 / 2 < d then f + 1 else if even f then f else f + 1)"

definition toDouble :: "rat \<Rightarrow> rat" where
  "toDouble r =
     (if r \<le> 0 then 0
      else (let (p, q) = quotient_of r;
                k = bitlen p - bitlen q;
                e = (if pow2 k \<le> r then k else k - 1)
            in of_int (roundHalfEven (r * pow2 (52 - e))) * pow2 (e - 52)))"

definition js_div :: "nat \<Rightarrow> nat \<Rightarrow> jsnum" where
  "js_div a b =
     (if b = 0 then (if a = 0 then NaN else Infinity)
      else Finite (toDouble (of_nat a / of_nat b)))"

definition digit :: "nat \<Rightarrow> char" where
  "digit d = ''0123456789'' ! d"

fun digits :: "nat \<Rightarrow> string" where
  "digits n = (if n < 10 then [digit n] else digits (n div 10) @ [digit (n mod 10)])"

declare digits.simps [simp del]

text \<open>
  \<^verbatim>\<open>Number.prototype.toFixed(2)\<close> on a non-negative number below \<open>10^21\<close>: the integer
  \<open>n\<close> with \<open>n / 100\<close> nearest to the number (the larger one on a tie), written in
  decimal, padded with zeros to three digits, with a point before the last two.
\<close>

definition toFixed2 :: "jsnum \<Rightarrow> string" where
  "toFixed2 x =
     (case x of
        NaN \<Rightarrow> ''NaN''
      | Infinity \<Rightarrow> ''Infinity''
      | Finite r \<Rightarrow>
          (let n = nat \<lfloor>r * 100 + 1 / 2\<rfloor>;
               m = digits n;
               m' = (if length m \<le> 2 then replicate (3 - length m) (CHR ''0'') @ m else m)
           in take (length m' - 2) m' @ ''.'' @ drop (length m' - 2) m'))"

subsection \<open>The aggregation\<close>

text \<open>\<^verbatim>\<open>x || 0\<close> on an optional count, and \<^verbatim>\<open>x?.length > 0\<close> on an optional array.\<close>

definition or0 :: "nat option \<Rightarrow> nat" where
  "or0 v = (case v of None \<Rightarrow> 0 | Some n \<Rightarrow> n)"

definition hasAny :: "'a list option \<Rightarrow> bool" where
  "hasAny v = (case v of None \<Rightarrow> False | Some xs \<Rightarrow> 0 < length xs)"

definition topEntry :: "tweet \<Rightarrow> top_tweet" where
  "topEntry t =
     \<lparr>top_id = id_t t, top_text = take 100 (text_t t), top_likes = likes t,
      top_retweetCount = retweetCount t, top_url = permanentUrl t\<rparr>"

text \<open>
  The dates of the posts that pass the test \<^verbatim>\<open>t.timestamp !== null\<close> are sorted by
  \<^verbatim>\<open>sort((a, b) => a - b)\<close>: \<^verbatim>\<open>sort\<close> puts the elements that are \<^verbatim>\<open>undefined\<close> last
  without asking the comparator, and orders the others, stably, by their difference, in
  which \<^verbatim>\<open>null\<close> would count as 0.
\<close>

definition numberOf :: "js_timestamp \<Rightarrow> int" where
  "numberOf d = (case d of At n \<Rightarrow> n | Null \<Rightarrow> 0 | Undefined \<Rightarrow> 0)"

definition sortDates :: "js_timestamp list \<Rightarrow> js_timestamp list" where
  "sortDates ds =
     sort_key numberOf (filter (\<lambda>d. d \<noteq> Undefined) ds) @ filter (\<lambda>d. d = Undefined) ds"

text \<open>
  \<^verbatim>\<open>format(new Date(d), 'yyyy-MM-dd')\<close>. The formatter of the date library, in the local
  time zone, is the parameter \<open>fmt\<close>, on the number of a valid date.
  \<^verbatim>\<open>new Date(undefined)\<close> is an invalid date, on which the library throws a RangeError
  with the message below; \<^verbatim>\<open>new Date(null)\<close> is the date 0.
\<close>

definition formatDay :: "(int \<Rightarrow> string) \<Rightarrow> js_timestamp \<Rightarrow> string + string" where
  "formatDay fmt d =
     (case d of
        At n \<Rightarrow> Inr (fmt n)
      | Null \<Rightarrow> Inr (fmt 0)
      | Undefined \<Rightarrow> Inl ''Invalid time value'')"

text \<open>
  The object \<^verbatim>\<open>timeRange\<close>: its start, then its end; the first that throws ends the
  evaluation.
\<close>

definition timeRangeOf :: "(int \<Rightarrow> string) \<Rightarrow> js_timestamp list \<Rightarrow> string + time_range" where
  "timeRangeOf fmt validDates =
     (case (if 0 < length validDates then formatDay fmt (validDates ! 0) else Inr ''N/A'') of
        Inl msg \<Rightarrow> Inl msg
      | Inr first \<Rightarrow>
          (case (if 0 < length validDates
                 then formatDay fmt (validDates ! (length validDates - 1)) else Inr ''N/A'') of
             Inl msg \<Rightarrow> Inl msg
           | Inr final \<Rightarrow> Inr \<lparr>range_start = first, range_end = final\<rparr>))"

text \<open>
  \<^verbatim>\<open>generateAnalytics(tweets)\<close>. The result is the warnings logged and then either
  the report or the message of the exception thrown while the report is built (the
  engagement part of the report is evaluated before the time range, and has no effect
  of its own). \<^verbatim>\<open>Array.prototype.sort\<close> is stable, and so is \<^const>\<open>sort_key\<close>; the
  comparator \<^verbatim>\<open>(b.likes || 0) - (a.likes || 0)\<close> orders by descending likes.
\<close>

definition generateAnalytics ::
    "(int \<Rightarrow> string) \<Rightarrow> tweet list \<Rightarrow> event list \<times> (string + analytics)" where
  "generateAnalytics fmt tweets =
     (if length tweets = 0 then
        ([WarnNoTweets],
         Inr \<lparr>totalTweets = 0, directTweets = 0, replyTweets = 0, retweets = 0,
          engagement =
            \<lparr>totalLikes = 0, totalRetweetCount = 0, totalReplies = 0,
             averageLikes = ''0.00'', topTweets = []\<rparr>,
          timeRange = \<lparr>range_start = ''N/A'', range_end = ''N/A''\<rparr>,
          contentTypes = \<lparr>withImages = 0, withVideos = 0, withLinks = 0, textOnly = 0\<rparr>\<rparr>)
      else
        (let validTweets = filter (\<lambda>t. timestamp t \<noteq> Null) tweets;
             invalidTweets = filter (\<lambda>t. timestamp t = Null) tweets;
             warned = (if 0 < length invalidTweets
                       then [WarnInvalidDates (length invalidTweets)] else []);
             validDates = sortDates (map timestamp validTweets);
             tweetsForEngagement = filter (\<lambda>t. \<not> isRetweet t) tweets
         in (warned,
             case timeRangeOf fmt validDates of
               Inl msg \<Rightarrow> Inl msg
             | Inr rng \<Rightarrow>
             Inr \<lparr>totalTweets = length tweets,
              directTweets = length (filter (\<lambda>t. \<not> isReply t \<and> \<not> isRetweet t) tweets),
              replyTweets = length (filter isReply tweets),
              retweets = length (filter isRetweet tweets),
              engagement =
                \<lparr>totalLikes = foldl (\<lambda>s t. s + or0 (likes t)) 0 tweetsForEngagement,
                 totalRetweetCount =
                   foldl (\<lambda>s t. s + or0 (retweetCount t)) 0 tweetsForEngagement,
                 totalReplies = foldl (\<lambda>s t. s + or0 (replies t)) 0 tweetsForEngagement,
                 averageLikes =
                   toFixed2 (js_div (foldl (\<lambda>s t. s + or0 (likes t)) 0 tweetsForEngagement)
                                    (length tweetsForEngagement)),
                 topTweets =
                   map topEntry
                     (take 5 (sort_key (\<lambda>t. - int (or0 (likes t))) tweetsForEngagement))\<rparr>,
              timeRange = rng,
              contentTypes =
                \<lparr>withImages = length (filter (\<lambda>t. hasAny (photos t)) tweets),
                 withVideos = length (filter (\<lambda>t. hasAny (videos t)) tweets),
                 withLinks = length (filter (\<lambda>t. hasAny (urls t)) tweets),
                 textOnly =
                   length (filter (\<lambda>t. \<not> hasAny (photos t) \<and> \<not> hasAny (videos t)
                                        \<and> \<not> hasAny (urls t)) tweets)\<rparr>\<rparr>)))"

section \<open>TwitterPipeline: the cookie file\<close>

text \<open>
  \<^verbatim>\<open>x || d\<close> on an optional string, and the removal of one layer of double quotes
  (\<^verbatim>\<open>value.startsWith('"') && value.endsWith('"') && value.length > 1\<close>, then
  \<^verbatim>\<open>value.slice(1, -1)\<close>).
\<close>

definition orElse :: "string option \<Rightarrow> string \<Rightarrow> string" where
  "orElse v d = (case v of None \<Rightarrow> d | Some s \<Rightarrow> if s = [] then d else s)"

definition unquote :: "string \<Rightarrow> string" where
  "unquote v =
     (if hd v = CHR 0x22 \<and> last v = CHR 0x22 \<and> 1 < length v then butlast (tl v) else v)"

text \<open>The fields of an entry as \<^verbatim>\<open>loadCookies\<close> reads them, with its defaults.\<close>

definition entryKey :: "cookie_entry \<Rightarrow> string" where
  "entryKey c = orElse (e_key c) (orElse (e_name c) [])"

definition entryValue :: "cookie_entry \<Rightarrow> string" where
  "entryValue c = orElse (e_value c) []"

definition entryDomain :: "cookie_entry \<Rightarrow> string" where
  "entryDomain c = orElse (e_domain c) ''twitter.com''"

definition entryPath :: "cookie_entry \<Rightarrow> string" where
  "entryPath c = orElse (e_path c) ''/''"

definition entrySecure :: "cookie_entry \<Rightarrow> bool" where
  "entrySecure c = (case e_secure c of None \<Rightarrow> True | Some b \<Rightarrow> b)"

definition entryHttpOnly :: "cookie_entry \<Rightarrow> bool" where
  "entryHttpOnly c = (case e_httpOnly c of None \<Rightarrow> False | Some b \<Rightarrow> b)"

text \<open>
  The two functions of the cookie library: \<^verbatim>\<open>Cookie.fromJSON\<close> copies the fields of an
  object into a cookie (it returns \<^verbatim>\<open>null\<close> only for what is not an object);
  \<^verbatim>\<open>toJSON\<close> writes the fields that differ from the library's defaults (the empty
  string, \<^verbatim>\<open>null\<close>, \<^verbatim>\<open>false\<close>).
\<close>

definition fromJSON :: "cookie \<Rightarrow> cookie option" where
  "fromJSON d = Some d"

definition toJSON :: "cookie \<Rightarrow> cookie_entry" where
  "toJSON c =
     \<lparr>e_key = (if ck_key c = [] then None else Some (ck_key c)),
      e_name = None,
      e_value = (if ck_value c = [] then None else Some (ck_value c)),
      e_domain = ck_domain c,
      e_path = ck_path c,
      e_secure = (if ck_secure c then Some True else None),
      e_httpOnly = (if ck_httpOnly c then Some True else None)\<rparr>"

text \<open>The callback of \<^verbatim>\<open>arr.map\<close> in \<^verbatim>\<open>loadCookies\<close>, up to the cookie it builds.\<close>

definition cookieOfEntry :: "cookie_entry \<Rightarrow> cookie option" where
  "cookieOfEntry c =
     (let key = entryKey c in
      if key = [] then None
      else (let value = unquote (entryValue c) in
            if value = [] then None
            else fromJSON
                   \<lparr>ck_key = key, ck_value = value,
                    ck_domain = Some (entryDomain c), ck_path = Some (entryPath c),
                    ck_secure = entrySecure c, ck_httpOnly = entryHttpOnly c\<rparr>))"

text \<open>The line it makes of the cookie: \<^verbatim>\<open>parts.join("; ")\<close>.\<close>

fun joinWith :: "string \<Rightarrow> string list \<Rightarrow> string" where
  "joinWith sep [] = []"
| "joinWith sep [p] = p"
| "joinWith sep (p # q # ps) = p @ sep @ joinWith sep (q # ps)"

definition orNull :: "string option \<Rightarrow> string" where
  "orNull v = (case v of None \<Rightarrow> ''null'' | Some s \<Rightarrow> s)"

definition setCookieString :: "cookie \<Rightarrow> string" where
  "setCookieString toughC =
     joinWith ''; ''
       ([ck_key toughC @ ''='' @ ck_value toughC,
         ''Domain='' @ orNull (ck_domain toughC),
         ''Path='' @ orNull (ck_path toughC)]
        @ (if ck_secure toughC then [''Secure''] else [])
        @ (if ck_httpOnly toughC then [''HttpOnly''] else []))"

text \<open>The callback of \<^verbatim>\<open>agentCookies.map\<close> in \<^verbatim>\<open>saveCookies\<close>.\<close>

definition entryOfCookie :: "cookie \<Rightarrow> cookie_entry option" where
  "entryOfCookie c =
     (if ck_key c = [] \<or> ck_value c = [] then None
      else (case fromJSON
                   \<lparr>ck_key = ck_key c, ck_value = ck_value c,
                    ck_domain = Some (orElse (ck_domain c) ''twitter.com''),
                    ck_path = Some (orElse (ck_path c) ''/''),
                    ck_secure = True, ck_httpOnly = False\<rparr> of
              None \<Rightarrow> None
            | Some toughC \<Rightarrow> Some (toJSON toughC)))"

text \<open>
  The two translations (\<^verbatim>\<open>.map(...).filter(Boolean)\<close>): a record to the cookies whose
  lines are given to the client, and the cookies the client returns to a record.
\<close>

definition decodeRecord :: "cookie_entry list \<Rightarrow> cookie list" where
  "decodeRecord arr = List.map_filter cookieOfEntry arr"

definition encodeRecord :: "cookie list \<Rightarrow> cookie_entry list" where
  "encodeRecord cs = List.map_filter entryOfCookie cs"

text \<open>
  The round trip of a record. \<^verbatim>\<open>loadCookies\<close> gives the client the lines of the decoded
  cookies (\<^verbatim>\<open>scraper.setCookies\<close>), and \<^verbatim>\<open>saveCookies\<close> encodes the cookies the client
  returns (\<^verbatim>\<open>scraper.getCookies\<close>). The client's cookie jar is outside the repository:
  it is the parameter \<open>jar\<close>, from the lines it is given to the cookies it returns.
\<close>

definition roundTrip ::
    "(string list \<Rightarrow> cookie list) \<Rightarrow> cookie_entry list \<Rightarrow> cookie_entry list" where
  "roundTrip jar arr = encodeRecord (jar (map setCookieString (decodeRecord arr)))"

text \<open>
  The equivalence of the round-trip property, in the spec's words: the same key, value,
  domain, path, secure and httpOnly.
\<close>

definition sameCookieFields :: "cookie_entry \<Rightarrow> cookie_entry \<Rightarrow> bool" where
  "sameCookieFields e e' \<longleftrightarrow>
     entryKey e' = entryKey e \<and> entryValue e' = entryValue e
     \<and> entryDomain e' = entryDomain e \<and> entryPath e' = entryPath e
     \<and> entrySecure e' = entrySecure e \<and> entryHttpOnly e' = entryHttpOnly e"

definition noValidCookies :: string where
  "noValidCookies = ''No valid cookies after parse => can'' @ [CHR 0x27] @ ''t set them''"

definition loadCookies :: "world \<Rightarrow> bool \<times> event list" where
  "loadCookies w =
     (case cookieFile w of
        Inl msg \<Rightarrow> (False, [WarnLoadCookies msg])
      | Inr arr \<Rightarrow>
          (let setCookieStrings = map setCookieString (decodeRecord arr) in
           if length setCookieStrings = 0 then (False, [WarnLoadCookies noValidCookies])
           else (case setCookiesError w of
                   Some msg \<Rightarrow> (False, [SetCookies setCookieStrings, WarnLoadCookies msg])
                 | None \<Rightarrow> (True, [SetCookies setCookieStrings]))))"

definition saveCookies :: "world \<Rightarrow> event list" where
  "saveCookies w =
     (case agentCookies w of
        Inl msg \<Rightarrow> [WarnSaveCookies msg]
      | Inr cs \<Rightarrow>
          (let arr = encodeRecord cs in
           if length arr = 0 then [WarnSaveCookies ''No valid cookies to save from agent!'']
           else (case cookieWriteError w of
                   Some msg \<Rightarrow> [WarnSaveCookies msg]
                 | None \<Rightarrow> [WriteCookies arr])))"

section \<open>TwitterPipeline.initializeScraper\<close>

text \<open>The message the \<^verbatim>\<open>catch\<close> of an attempt sees, if the attempt fails.\<close>

definition attemptError :: "login_outcome \<Rightarrow> string option" where
  "attemptError out =
     (case out of
        LoginThrows msg \<Rightarrow> Some msg
      | Verified ok \<Rightarrow> (if ok then None else Some ''Login verification failed'')
      | VerifyThrows msg \<Rightarrow> Some msg)"

text \<open>
  The loop \<^verbatim>\<open>for (let attempt = 1; attempt <= maxRetries; attempt++)\<close>, from the value of
  \<open>attempt\<close> on; \<open>False\<close> with no event when the loop is over (the last line of the
  function).
\<close>

function loginLoop :: "twitter_config \<Rightarrow> world \<Rightarrow> nat \<Rightarrow> bool \<times> event list" where
  "loginLoop cfg w attempt =
     (if attempt \<le> maxRetries cfg then
        (case attemptError (loginOutcome w attempt) of
           None \<Rightarrow> (True, Login attempt # saveCookies w)
         | Some msg \<Rightarrow>
             (if maxRetries cfg \<le> attempt then (False, [Login attempt, WarnLogin attempt msg])
              else (let (ok, evs) = loginLoop cfg w (attempt + 1)
                    in (ok, [Login attempt, WarnLogin attempt msg,
                             SetTimeout (retryDelay cfg * attempt)] @ evs))))
      else (False, []))"
  by pat_completeness auto
termination
  by (relation "measure (\<lambda>(cfg, w, attempt). maxRetries cfg + 1 - attempt)") auto

declare loginLoop.simps [simp del]

definition initializeScraper :: "twitter_config \<Rightarrow> world \<Rightarrow> bool \<times> event list" where
  "initializeScraper cfg w =
     (let (cookiesLoaded, evc) = loadCookies w in
      if cookiesLoaded \<and> sessionCheck w = Inr True then (True, evc)
      else
        (let evs = (if cookiesLoaded
                    then (case sessionCheck w of
                            Inl msg \<Rightarrow> [WarnCookieCheck msg]
                          | Inr ok \<Rightarrow> [WarnSessionInvalid])
                    else []);
             (ok, evl) = loginLoop cfg w 1
         in (ok, evc @ evs @ [WarnFreshLogin] @ evl)))"

text \<open>
  Reading a trace of events: the attempts in order, each with the delay asked of
  \<^verbatim>\<open>setTimeout\<close> since the attempt before it (or since the start).
\<close>

fun attemptDelays :: "nat \<Rightarrow> event list \<Rightarrow> (nat \<times> nat) list" where
  "attemptDelays waited [] = []"
| "attemptDelays waited (Login n # es) = (n, waited) # attemptDelays 0 es"
| "attemptDelays waited (SetTimeout d # es) = attemptDelays (waited + d) es"
| "attemptDelays waited (e # es) = attemptDelays waited es"

text \<open>A trace without login attempts and without \<^verbatim>\<open>setTimeout\<close>.\<close>

definition noLoginEvents :: "event list \<Rightarrow> bool" where
  "noLoginEvents es \<longleftrightarrow> (\<forall>e\<in>set es. (\<forall>n. e \<noteq> Login n) \<and> (\<forall>d. e \<noteq> SetTimeout d))"

section \<open>TwitterPipeline.collectMainTweets\<close>

text \<open>
  \<^verbatim>\<open>totalTweetsForUser\<close> is 0 unless the profile lookup returns, and then
  \<^verbatim>\<open>profile.tweetsCount || 0\<close>; \<^verbatim>\<open>maxWanted\<close> is
  \<^verbatim>\<open>Math.min(maxTweets, totalTweetsForUser || 1e9)\<close>.
\<close>

definition totalTweetsForUser :: "world \<Rightarrow> nat" where
  "totalTweetsForUser w = (case profile w of Inl msg \<Rightarrow> 0 | Inr tweetsCount \<Rightarrow> or0 tweetsCount)"

definition maxWanted :: "twitter_config \<Rightarrow> world \<Rightarrow> nat" where
  "maxWanted cfg w =
     min (maxTweets cfg)
         (if totalTweetsForUser w = 0 then 1000000000 else totalTweetsForUser w)"

text \<open>
  \<^verbatim>\<open>raw?.id\<close>, when it is truthy, with the item; an item may be \<^verbatim>\<open>null\<close>.
\<close>

definition rawId :: "tweet option \<Rightarrow> (string \<times> tweet) option" where
  "rawId raw =
     (case raw of
        None \<Rightarrow> None
      | Some t \<Rightarrow> (case id_t t of None \<Rightarrow> None | Some i \<Rightarrow> if i = [] then None else Some (i, t)))"

text \<open>
  The \<^verbatim>\<open>Map\<close> of results is a list of pairs in insertion order;
  \<^verbatim>\<open>if (!results.has(raw.id)) results.set(raw.id, raw)\<close>.
\<close>

definition setIfAbsent :: "(string \<times> tweet) list \<Rightarrow> string \<times> tweet \<Rightarrow> (string \<times> tweet) list" where
  "setIfAbsent res p = (if fst p \<in> set (map fst res) then res else res @ [p])"

text \<open>
  The loop \<^verbatim>\<open>for await (const raw of iterator)\<close> over the items the iterator yields,
  from a state of \<^verbatim>\<open>results\<close> and \<^verbatim>\<open>count\<close>. It returns the two (\<open>fetched\<close> is the
  final \<^verbatim>\<open>count\<close>), the items left unread, whether it left by \<^verbatim>\<open>break\<close>, and the
  pauses it made.
\<close>

record collected =
  results :: "(string \<times> tweet) list"
  fetched :: nat
  unread :: "tweet option list"
  stopped :: bool
  pauses :: "event list"

fun collectLoop :: "nat \<Rightarrow> tweet option list \<Rightarrow> (string \<times> tweet) list \<Rightarrow> nat \<Rightarrow> collected" where
  "collectLoop wanted [] res cnt =
     \<lparr>results = res, fetched = cnt, unread = [], stopped = False, pauses = []\<rparr>"
| "collectLoop wanted (raw # rest) res cnt =
     (case rawId raw of
        None \<Rightarrow> collectLoop wanted rest res cnt
      | Some p \<Rightarrow>
          (let res' = setIfAbsent res p;
               cnt' = cnt + 1;
               evs = (if cnt' mod 100 = 0 then [RandomDelay] else [])
           in if wanted \<le> cnt'
              then \<lparr>results = res', fetched = cnt', unread = rest, stopped = True, pauses = evs\<rparr>
              else (let r = collectLoop wanted rest res' cnt'
                    in r\<lparr>pauses := evs @ pauses r\<rparr>)))"

text \<open>
  \<^verbatim>\<open>collectMainTweets\<close>: the posts collected (\<^verbatim>\<open>Array.from(results.values())\<close>), or
  the message of the exception of the iterator, which is thrown when the loop asks for
  an item after the last.
\<close>

definition collectMainTweets :: "twitter_config \<Rightarrow> world \<Rightarrow> (string + tweet list) \<times> event list" where
  "collectMainTweets cfg w =
     (let evp = (case profile w of Inl msg \<Rightarrow> [WarnProfile msg] | Inr tweetsCount \<Rightarrow> []);
          r = collectLoop (maxWanted cfg w) (searchItems w) [] 0
      in (case searchError w of
            Some msg \<Rightarrow> if stopped r then (Inr (map snd (results r)), evp @ pauses r)
                        else (Inl msg, evp @ pauses r)
          | None \<Rightarrow> (Inr (map snd (results r)), evp @ pauses r)))"

text \<open>The items of a source that have an identifier, each with its identifier.\<close>

definition identified :: "tweet option list \<Rightarrow> (string \<times> tweet) list" where
  "identified src = List.map_filter rawId src"

section \<open>TwitterPipeline.fetchAllParentTweets\<close>

text \<open>
  \<^verbatim>\<open>t.inReplyToStatusId\<close>, when it is truthy, and \<^verbatim>\<open>parent?.text || ""\<close>.
\<close>

definition replyTo :: "tweet \<Rightarrow> string option" where
  "replyTo t =
     (case inReplyToStatusId t of None \<Rightarrow> None | Some p \<Rightarrow> if p = [] then None else Some p)"

definition parentText :: "tweet option \<Rightarrow> string" where
  "parentText parent = (case parent of None \<Rightarrow> [] | Some p \<Rightarrow> text_t p)"

text \<open>
  The loop \<^verbatim>\<open>for (const t of replies)\<close>; \<open>i\<close> is the number of replies done. The
  array \<^verbatim>\<open>replies\<close> holds the very objects of \<^verbatim>\<open>allTweets\<close> that are replies, in
  order, and the loop writes \<^verbatim>\<open>inReplyToText\<close> into them: the model walks
  \<^verbatim>\<open>allTweets\<close>, passes over the posts that are no replies, and returns the posts as
  they are after the loop, with the calls made and the warnings logged.
\<close>

fun parentLoop :: "(nat \<Rightarrow> string \<Rightarrow> string + tweet option) \<Rightarrow> nat \<Rightarrow> tweet list
    \<Rightarrow> tweet list \<times> event list" where
  "parentLoop get i [] = ([], [])"
| "parentLoop get i (t # ts) =
     (case replyTo t of
        None \<Rightarrow> (let (ts', evs) = parentLoop get i ts in (t # ts', evs))
      | Some parentId \<Rightarrow>
          (let (txt, ev1) =
                 (case get i parentId of
                    Inr parent \<Rightarrow> (parentText parent, [GetTweet parentId])
                  | Inl msg \<Rightarrow> ([], [GetTweet parentId, WarnFetchParent parentId msg]));
               i' = i + 1;
               ev2 = (if i' mod 50 = 0 then [RandomDelay] else []);
               (ts', evs) = parentLoop get i' ts
           in (t\<lparr>inReplyToText := Some txt\<rparr> # ts', ev1 @ ev2 @ evs)))"

declare parentLoop.simps(2) [simp del]

definition fetchAllParentTweets :: "world \<Rightarrow> tweet list \<Rightarrow> tweet list \<times> event list" where
  "fetchAllParentTweets w allTweets =
     (let replyPosts = filter (\<lambda>t. replyTo t \<noteq> None) allTweets in
      if length replyPosts = 0 then (allTweets, [])
      else parentLoop (getTweet w) 0 allTweets)"

text \<open>The posts asked of \<^verbatim>\<open>getTweet\<close> in a trace, in order.\<close>

fun fetchedIds :: "event list \<Rightarrow> string list" where
  "fetchedIds [] = []"
| "fetchedIds (GetTweet p # es) = p # fetchedIds es"
| "fetchedIds (e # es) = fetchedIds es"

section \<open>TwitterPipeline.run\<close>

text \<open>
  \<^verbatim>\<open>validateEnvironment\<close>: the required variables that are not set; when there are
  any, the process exits with status 1.
\<close>

definition isSet :: "string option \<Rightarrow> bool" where
  "isSet v = (case v of None \<Rightarrow> False | Some s \<Rightarrow> s \<noteq> [])"

definition missingEnv :: "world \<Rightarrow> string list" where
  "missingEnv w = filter (\<lambda>k. \<not> isSet (env w k)) [''TWITTER_USERNAME'', ''TWITTER_PASSWORD'']"

text \<open>
  \<^verbatim>\<open>DataOrganizer.saveTweets\<close>, the \<open>call\<close>-th call of a run: it writes the posts and
  their URLs, generates the analytics, and writes the analytics and the summary. The
  first step that throws ends it: the error is logged and thrown again. What is
  written is not part of the trace.
\<close>

definition saveTweets :: "world \<Rightarrow> nat \<Rightarrow> tweet list \<Rightarrow> (string + analytics) \<times> event list" where
  "saveTweets w call tweets =
     (case writeError w call RawTweets of
        Some msg \<Rightarrow> (Inl msg, [ErrorSaving msg])
      | None \<Rightarrow>
     (case writeError w call RawUrls of
        Some msg \<Rightarrow> (Inl msg, [WriteFile RawTweets, ErrorSaving msg])
      | None \<Rightarrow>
     (let (logged, built) = generateAnalytics (formatDate w) tweets;
          evs = [WriteFile RawTweets, WriteFile RawUrls, GenerateAnalytics] @ logged
      in (case built of
            Inl msg \<Rightarrow> (Inl msg, evs @ [ErrorSaving msg])
          | Inr report \<Rightarrow>
         (case writeError w call Stats of
            Some msg \<Rightarrow> (Inl msg, evs @ [ErrorSaving msg])
          | None \<Rightarrow>
         (case writeError w call Summary of
            Some msg \<Rightarrow> (Inl msg, evs @ [WriteFile Stats, ErrorSaving msg])
          | None \<Rightarrow> (Inr report, evs @ [WriteFile Stats, WriteFile Summary])))))))"

text \<open>
  \<^verbatim>\<open>saveFineTuneData\<close>: \<^verbatim>\<open>saveTweets\<close> again, then the file of prompt and completion
  pairs (its content is not modelled); the result is the message of the exception, if
  one is thrown.
\<close>

definition saveFineTuneData :: "world \<Rightarrow> tweet list \<Rightarrow> string option \<times> event list" where
  "saveFineTuneData w allTweets =
     (case saveTweets w 2 allTweets of
        (Inl msg, evs) \<Rightarrow> (Some msg, evs)
      | (Inr report, evs) \<Rightarrow>
          (case writeError w 2 FineTuning of
             Some msg \<Rightarrow> (Some msg, evs)
           | None \<Rightarrow> (None, evs @ [WriteFile FineTuning])))"

definition showSampleTweets :: "world \<Rightarrow> tweet list \<Rightarrow> event list" where
  "showSampleTweets w tweets =
     (if showSample w then [PromptSample, PrintSample (take 5 tweets)] else [PromptSample])"

definition cleanup :: "world \<Rightarrow> event list" where
  "cleanup w = (case logoutError w of Some msg \<Rightarrow> [Logout, WarnCleanup msg] | None \<Rightarrow> [Logout])"

text \<open>
  \<^verbatim>\<open>run\<close>, as the trace of the whole pipeline. An exception of a stage is caught at
  the end of \<^verbatim>\<open>run\<close>, which logs it and cleans up; the two early returns (login
  failed, nothing collected) leave without cleaning up.
\<close>

definition run :: "twitter_config \<Rightarrow> world \<Rightarrow> event list" where
  "run cfg w =
     (if 0 < length (missingEnv w) then [ErrorMissingEnv (missingEnv w), ProcessExit 1]
      else
        (let (ok, ev1) = initializeScraper cfg w in
         if \<not> ok then ev1 @ [ErrorInit]
         else
           (case collectMainTweets cfg w of
              (Inl msg, ev2) \<Rightarrow> ev1 @ ev2 @ [ErrorPipeline msg] @ cleanup w
            | (Inr mainTweets, ev2) \<Rightarrow>
                if length mainTweets = 0 then ev1 @ ev2 @ [WarnNoTweetsDone]
                else
                  (case saveTweets w 1 mainTweets of
                     (Inl msg, ev3) \<Rightarrow> ev1 @ ev2 @ ev3 @ [ErrorPipeline msg] @ cleanup w
                   | (Inr report, ev3) \<Rightarrow>
                       (let (enriched, ev4) = fetchAllParentTweets w mainTweets in
                        case saveFineTuneData w enriched of
                          (Some msg, ev5) \<Rightarrow>
                            ev1 @ ev2 @ ev3 @ ev4 @ ev5 @ [ErrorPipeline msg] @ cleanup w
                        | (None, ev5) \<Rightarrow>
                            ev1 @ ev2 @ ev3 @ ev4 @ ev5 @ showSampleTweets w enriched
                              @ cleanup w)))))"

text \<open>
  Reading a trace: the fetches of parent posts and the aggregations in it. The
  ordering that asks every aggregation to come after every fetch of a parent is
  \<open>aggregationAfterParents\<close>.
\<close>

fun isFetch :: "event \<Rightarrow> bool" where
  "isFetch (GetTweet p) = True"
| "isFetch e = False"

fun isAggregate :: "event \<Rightarrow> bool" where
  "isAggregate GenerateAnalytics = True"
| "isAggregate e = False"

fun aggregationAfterParents :: "event list \<Rightarrow> bool" where
  "aggregationAfterParents [] = True"
| "aggregationAfterParents (e # es) =
     ((if isAggregate e then list_all (\<lambda>e'. \<not> isFetch e') es else True)
      \<and> aggregationAfterParents es)"

definition noFetch :: "event list \<Rightarrow> bool" where
  "noFetch es = list_all (\<lambda>e. \<not> isFetch e) es"

definition noAggregate :: "event list \<Rightarrow> bool" where
  "noAggregate es = list_all (\<lambda>e. \<not> isAggregate e) es"

definition aggregations :: "event list \<Rightarrow> nat" where
  "aggregations es = length (filter isAggregate es)"

definition quiet :: "event list \<Rightarrow> bool" where
  "quiet es = list_all (\<lambda>e. \<not> isFetch e \<and> \<not> isAggregate e) es"

section \<open>Inputs for the examples\<close>

definition post0 :: tweet where
  "post0 =
     \<lparr>id_t = Some ''0'', username = Some ''u'', text_t = ''hello'', timestamp = At 0,
      isReply = False, isRetweet = False, likes = None, retweetCount = None, replies = None,
      photos = None, videos = None, urls = None, permanentUrl = None,
      inReplyToStatusId = None, inReplyToText = None\<rparr>"

text \<open>An entry as a browser exports it: the name under \<^verbatim>\<open>name\<close>, not secure, httpOnly.\<close>

definition browserCookie :: cookie_entry where
  "browserCookie =
     \<lparr>e_key = None, e_name = Some ''auth_token'', e_value = Some ''abc'',
      e_domain = Some ''.twitter.com'', e_path = Some ''/'',
      e_secure = Some False, e_httpOnly = Some True\<rparr>"

text \<open>
  A jar that, given the line of that cookie, returns the cookie under the domain
  without its leading dot.
\<close>

definition dotlessJar :: "string list \<Rightarrow> cookie list" where
  "dotlessJar lines =
     (if lines = [''auth_token=abc; Domain=.twitter.com; Path=/; HttpOnly'']
      then [\<lparr>ck_key = ''auth_token'', ck_value = ''abc'', ck_domain = Some ''twitter.com'',
             ck_path = Some ''/'', ck_secure = False, ck_httpOnly = True\<rparr>]
      else [])"

text \<open>A stand-in for the date formatter: it prints the number.\<close>

definition showDate :: "int \<Rightarrow> string" where
  "showDate d = digits (nat d)"

text \<open>
  A world with no cookie file, where every login is verified at once, and the default
  configuration.
\<close>

definition world0 :: world where
  "world0 =
     \<lparr>env = (\<lambda>k. Some ''x''),
      cookieFile = Inl ''ENOENT'',
      setCookiesError = None,
      sessionCheck = Inr False,
      loginOutcome = (\<lambda>n. Verified True),
      agentCookies = Inr [],
      cookieWriteError = None,
      profile = Inr (Some 3),
      searchItems = [],
      searchError = None,
      getTweet = (\<lambda>i p. Inr None),
      writeError = (\<lambda>k f. None),
      formatDate = showDate,
      showSample = False,
      logoutError = None\<rparr>"

definition config0 :: twitter_config where
  "config0 = \<lparr>maxTweets = 10000, maxRetries = 5, retryDelay = 3000, minDelay = 1000, maxDelay = 3000\<rparr>"

text \<open>A source with a \<^verbatim>\<open>null\<close> item, an item without identifier and a duplicate.\<close>

definition dupSource :: "tweet option list" where
  "dupSource = [Some (post0\<lparr>id_t := Some ''1''\<rparr>), None, Some (post0\<lparr>id_t := Some ''1'', text_t := ''again''\<rparr>),
                Some (post0\<lparr>id_t := None\<rparr>), Some (post0\<lparr>id_t := Some ''2''\<rparr>)]"

text \<open>Three posts, two of them replies, and a world where the parent of the first is not found.\<close>

definition replyBatch :: "tweet list" where
  "replyBatch =
     [post0\<lparr>id_t := Some ''1'', inReplyToStatusId := Some ''p1''\<rparr>,
      post0\<lparr>id_t := Some ''2''\<rparr>,
      post0\<lparr>id_t := Some ''3'', inReplyToStatusId := Some ''p2''\<rparr>]"

definition parentWorld :: world where
  "parentWorld =
     world0\<lparr>getTweet := (\<lambda>i p. if p = ''p1'' then Inl ''not found''
                                else Inr (Some (post0\<lparr>text_t := ''parent''\<rparr>)))\<rparr>"

text \<open>The same world, where the search yields the three posts and the profile lookup fails.\<close>

definition replyWorld :: world where
  "replyWorld =
     parentWorld\<lparr>searchItems := map Some replyBatch, profile := Inl ''no profile''\<rparr>"

section \<open>Properties of the aggregation\<close>

lemma filter_retweets_empty:
  "\<forall>t\<in>set tweets. isRetweet t \<Longrightarrow> filter (\<lambda>t. \<not> isRetweet t) tweets = []"
  by (induction tweets) simp_all

lemma sorted_first_Min:
  "sorted xs \<Longrightarrow> xs \<noteq> [] \<Longrightarrow> xs ! 0 = Min (set (xs :: int list))"
  by (cases xs) (auto intro!: Min_eqI [symmetric])

lemma sorted_last_Max:
  assumes "sorted xs" and "xs \<noteq> []"
  shows "xs ! (length xs - 1) = Max (set (xs :: int list))"
proof -
  have "y \<le> xs ! (length xs - 1)" if "y \<in> set xs" for y
  proof -
    from that obtain i where "i < length xs" and "y = xs ! i"
      by (auto simp: in_set_conv_nth)
    then show ?thesis using assms(1) by (simp add: sorted_nth_mono)
  qed
  moreover have "xs ! (length xs - 1) \<in> set xs" using assms(2) by simp
  ultimately show ?thesis by (intro Max_eqI [symmetric]) simp_all
qed

lemma formatDay_defined: "d \<noteq> Undefined \<Longrightarrow> formatDay fmt d = Inr (fmt (numberOf d))"
  by (cases d) (simp_all add: formatDay_def numberOf_def)

lemma sortDates_defined:
  "Undefined \<notin> set ds \<Longrightarrow> sortDates ds = sort_key numberOf ds"
proof -
  assume a: "Undefined \<notin> set ds"
  then have "filter (\<lambda>d. d \<noteq> Undefined) ds = ds" and "filter (\<lambda>d. d = Undefined) ds = []"
    by (auto simp: filter_empty_conv intro: filter_True)
  then show ?thesis by (simp add: sortDates_def)
qed

lemma timeRangeOf_defined:
  assumes "Undefined \<notin> set ds"
  shows "timeRangeOf fmt (sortDates ds) =
     Inr (if ds = [] then \<lparr>range_start = ''N/A'', range_end = ''N/A''\<rparr>
          else \<lparr>range_start = fmt (Min (numberOf ` set ds)),
                range_end = fmt (Max (numberOf ` set ds))\<rparr>)"
proof (cases "ds = []")
  case True
  then show ?thesis by (simp add: timeRangeOf_def sortDates_def)
next
  case False
  let ?S = "sort_key numberOf ds"
  have len: "length ?S = length ds" and st: "set ?S = set ds" by simp_all
  have ne: "?S \<noteq> []" using False len by (metis length_0_conv)
  have srt: "sorted (map numberOf ?S)" by (rule sorted_sort_key)
  have mne: "map numberOf ?S \<noteq> []" using ne by simp
  have first: "numberOf (?S ! 0) = Min (numberOf ` set ds)"
    using sorted_first_Min [OF srt mne] False ne st nth_map [of 0 ?S numberOf] by simp
  have last: "numberOf (?S ! (length ?S - 1)) = Max (numberOf ` set ds)"
    using sorted_last_Max [OF srt mne] False ne st nth_map [of "length ?S - 1" ?S numberOf] by simp
  have "?S ! 0 \<in> set ds" using ne st by (metis length_greater_0_conv nth_mem)
  then have d0: "?S ! 0 \<noteq> Undefined" using assms by auto
  have "?S ! (length ?S - 1) \<in> set ds"
    using ne st by (metis diff_less length_greater_0_conv nth_mem zero_less_one)
  then have d1: "?S ! (length ?S - 1) \<noteq> Undefined" using assms by auto
  show ?thesis
    using False ne first last formatDay_defined [OF d0, of fmt] formatDay_defined [OF d1, of fmt]
    by (simp add: timeRangeOf_def sortDates_defined [OF assms] del: length_sort)
qed

lemma timeRangeOf_undefined:
  assumes "Undefined \<in> set ds"
  shows "timeRangeOf fmt (sortDates ds) = Inl ''Invalid time value''"
proof -
  let ?us = "filter (\<lambda>d. d = Undefined) ds"
  let ?S = "sortDates ds"
  have une: "?us \<noteq> []" using assms by (simp add: filter_empty_conv)
  have S: "?S = sort_key numberOf (filter (\<lambda>d. d \<noteq> Undefined) ds) @ ?us"
    by (simp add: sortDates_def)
  have ne: "?S \<noteq> []" using une S by simp
  have "last ?S = last ?us" using une S by simp
  moreover have "last ?us \<in> set ?us" using une by (rule last_in_set)
  then have "last ?us = Undefined" by simp
  ultimately have "last ?S = Undefined" by simp
  then have l: "?S ! (length ?S - 1) = Undefined" using ne by (simp add: last_conv_nth)
  have f: "formatDay fmt (?S ! 0) = Inl ''Invalid time value'' \<or> (\<exists>s. formatDay fmt (?S ! 0) = Inr s)"
    by (cases "?S ! 0") (simp_all add: formatDay_def)
  have e: "formatDay fmt (?S ! (length ?S - 1)) = Inl ''Invalid time value''"
    unfolding l by (simp add: formatDay_def)
  show ?thesis
    using ne f e by (auto simp: timeRangeOf_def)
qed

lemma validDates_undefined:
  "Undefined \<in> set (map timestamp (filter (\<lambda>t. timestamp t \<noteq> Null) tweets))
     \<longleftrightarrow> (\<exists>t\<in>set tweets. timestamp t = Undefined)"
  by (force simp: image_iff)

lemma generateAnalytics_throws:
  assumes "\<exists>t\<in>set tweets. timestamp t = Undefined"
  shows "snd (generateAnalytics fmt tweets) = Inl ''Invalid time value''"
proof -
  from assms have ne: "tweets \<noteq> []" by auto
  have "timeRangeOf fmt (sortDates (map timestamp (filter (\<lambda>t. timestamp t \<noteq> Null) tweets)))
          = Inl ''Invalid time value''"
    using assms by (intro timeRangeOf_undefined) (simp only: validDates_undefined)
  then show ?thesis using ne by (simp add: generateAnalytics_def Let_def)
qed

lemma generateAnalytics_returns:
  assumes "\<not> (\<exists>t\<in>set tweets. timestamp t = Undefined)"
  shows "\<exists>r. snd (generateAnalytics fmt tweets) = Inr r"
proof (cases "tweets = []")
  case True
  then show ?thesis by (simp add: generateAnalytics_def)
next
  case False
  have "Undefined \<notin> set (map timestamp (filter (\<lambda>t. timestamp t \<noteq> Null) tweets))"
    using assms by (simp only: validDates_undefined) simp
  from timeRangeOf_defined [OF this, of fmt] show ?thesis
    using False by (simp add: generateAnalytics_def Let_def)
qed


text \<open>
  The report of a non-empty list with no timestamp that is \<^verbatim>\<open>undefined\<close>.
\<close>

lemma generateAnalytics_report:
  assumes "tweets \<noteq> []" and "\<not> (\<exists>t\<in>set tweets. timestamp t = Undefined)"
  shows "snd (generateAnalytics fmt tweets) =
     Inr \<lparr>totalTweets = length tweets,
          directTweets = length (filter (\<lambda>t. \<not> isReply t \<and> \<not> isRetweet t) tweets),
          replyTweets = length (filter isReply tweets),
          retweets = length (filter isRetweet tweets),
          engagement =
            \<lparr>totalLikes = foldl (\<lambda>s t. s + or0 (likes t)) 0 (filter (\<lambda>t. \<not> isRetweet t) tweets),
             totalRetweetCount =
               foldl (\<lambda>s t. s + or0 (retweetCount t)) 0 (filter (\<lambda>t. \<not> isRetweet t) tweets),
             totalReplies =
               foldl (\<lambda>s t. s + or0 (replies t)) 0 (filter (\<lambda>t. \<not> isRetweet t) tweets),
             averageLikes =
               toFixed2 (js_div (foldl (\<lambda>s t. s + or0 (likes t)) 0
                                   (filter (\<lambda>t. \<not> isRetweet t) tweets))
                                (length (filter (\<lambda>t. \<not> isRetweet t) tweets))),
             topTweets =
               map topEntry
                 (take 5 (sort_key (\<lambda>t. - int (or0 (likes t)))
                            (filter (\<lambda>t. \<not> isRetweet t) tweets)))\<rparr>,
          timeRange =
            (if map timestamp (filter (\<lambda>t. timestamp t \<noteq> Null) tweets) = []
             then \<lparr>range_start = ''N/A'', range_end = ''N/A''\<rparr>
             else \<lparr>range_start =
                     fmt (Min (numberOf ` set (map timestamp
                                 (filter (\<lambda>t. timestamp t \<noteq> Null) tweets)))),
                   range_end =
                     fmt (Max (numberOf ` set (map timestamp
                                 (filter (\<lambda>t. timestamp t \<noteq> Null) tweets))))\<rparr>),
          contentTypes =
            \<lparr>withImages = length (filter (\<lambda>t. hasAny (photos t)) tweets),
             withVideos = length (filter (\<lambda>t. hasAny (videos t)) tweets),
             withLinks = length (filter (\<lambda>t. hasAny (urls t)) tweets),
             textOnly =
               length (filter (\<lambda>t. \<not> hasAny (photos t) \<and> \<not> hasAny (videos t)
                                    \<and> \<not> hasAny (urls t)) tweets)\<rparr>\<rparr>"
proof -
  have "Undefined \<notin> set (map timestamp (filter (\<lambda>t. timestamp t \<noteq> Null) tweets))"
    using assms(2) by (simp only: validDates_undefined) simp
  from timeRangeOf_defined [OF this, of fmt] show ?thesis
    using assms(1) by (simp add: generateAnalytics_def Let_def)
qed

text \<open>
  C7. Aggregating the empty list returns the zero report: every count and sum is 0, the
  average is the string 0.00, both ends of the time range are N/A and the list of top
  posts is empty.
\<close>

theorem generateAnalytics_empty:
  "snd (generateAnalytics fmt []) =
     Inr \<lparr>totalTweets = 0, directTweets = 0, replyTweets = 0, retweets = 0,
      engagement =
        \<lparr>totalLikes = 0, totalRetweetCount = 0, totalReplies = 0,
         averageLikes = ''0.00'', topTweets = []\<rparr>,
      timeRange = \<lparr>range_start = ''N/A'', range_end = ''N/A''\<rparr>,
      contentTypes = \<lparr>withImages = 0, withVideos = 0, withLinks = 0, textOnly = 0\<rparr>\<rparr>"
  by (simp add: generateAnalytics_def)

text \<open>
  C1, the case the code misses. The average should be the string 0.00 whenever no post
  is left after the retweets are removed. The code returns 0.00 for the empty input
  only: for a non-empty input made of retweets alone it divides 0 by 0, and
  \<^verbatim>\<open>toFixed\<close> prints NaN in the report it returns (it returns one unless a timestamp is
  \<^verbatim>\<open>undefined\<close>, on which the formatting of the time range throws).
\<close>

theorem averageLikes_only_retweets:
  assumes "tweets \<noteq> []" and "\<forall>t\<in>set tweets. isRetweet t"
  shows "if \<exists>t\<in>set tweets. timestamp t = Undefined
         then snd (generateAnalytics fmt tweets) = Inl ''Invalid time value''
         else \<exists>r. snd (generateAnalytics fmt tweets) = Inr r
                  \<and> averageLikes (engagement r) = ''NaN''"
proof (cases "\<exists>t\<in>set tweets. timestamp t = Undefined")
  case True
  then show ?thesis using generateAnalytics_throws [OF True, of fmt] by simp
next
  case False
  have "filter (\<lambda>t. \<not> isRetweet t) tweets = []"
    using assms(2) by (rule filter_retweets_empty)
  then show ?thesis
    using False generateAnalytics_report [OF assms(1) False, of fmt]
    by (simp add: js_div_def toFixed2_def)
qed

theorem averageLikes_only_retweets_witness:
  "(case snd (generateAnalytics showDate [post0\<lparr>isRetweet := True, likes := Some 100\<rparr>]) of
      Inl msg \<Rightarrow> False
    | Inr r \<Rightarrow> averageLikes (engagement r) = ''NaN'' \<and> averageLikes (engagement r) \<noteq> ''0.00'')"
  using averageLikes_only_retweets [of "[post0\<lparr>isRetweet := True, likes := Some 100\<rparr>]" showDate]
  by (auto simp: post0_def)

text \<open>
  Where a post is left, the average is the quotient of the sum of likes (a missing count
  is 0) by the number of posts left, as a double, printed by \<^verbatim>\<open>toFixed(2)\<close>: three
  posts with 10, 30 and 20 likes give 20.00. The rounding is that of the double: 201
  likes over 200 posts is the double just below 1.005 and prints as 1.00, and an eighth
  is a tie, which \<^verbatim>\<open>toFixed\<close> rounds up.
\<close>

lemma foldl_add_sum_list:
  "foldl (\<lambda>s t. s + f t) a xs = a + sum_list (map f xs)"
  by (induction xs arbitrary: a) (simp_all add: add.assoc)

lemma averageLikes_mean:
  assumes "filter (\<lambda>t. \<not> isRetweet t) tweets \<noteq> []"
    and "\<not> (\<exists>t\<in>set tweets. timestamp t = Undefined)"
  shows "\<exists>r. snd (generateAnalytics fmt tweets) = Inr r
     \<and> averageLikes (engagement r)
       = toFixed2 (Finite (toDouble
         (of_nat (sum_list (map (\<lambda>t. or0 (likes t)) (filter (\<lambda>t. \<not> isRetweet t) tweets)))
          / of_nat (length (filter (\<lambda>t. \<not> isRetweet t) tweets)))))"
proof -
  from assms(1) have "tweets \<noteq> []" by auto
  from generateAnalytics_report [OF this assms(2), of fmt] show ?thesis
    using assms(1) by (simp add: js_div_def foldl_add_sum_list)
qed

lemma toFixed2_Finite:
  assumes "nat \<lfloor>r * 100 + 1 / 2\<rfloor> = n" and "digits n = m"
  shows "toFixed2 (Finite r) =
    (let m' = (if length m \<le> 2 then replicate (3 - length m) (CHR ''0'') @ m else m)
     in take (length m' - 2) m' @ ''.'' @ drop (length m' - 2) m')"
  using assms by (simp add: toFixed2_def Let_def)

lemma toFixed2_examples:
  "toFixed2 (js_div 201 200) = ''1.00''"
  "toFixed2 (js_div 1 3) = ''0.33''"
  "toFixed2 (js_div 1 8) = ''0.13''"
  "toFixed2 (js_div 0 4) = ''0.00''"
proof -
  have a: "nat \<lfloor>toDouble (201 / 200) * 100 + 1 / 2\<rfloor> = 100" by code_simp
  have b: "nat \<lfloor>toDouble (1 / 3) * 100 + 1 / 2\<rfloor> = 33" by code_simp
  have c: "nat \<lfloor>toDouble (1 / 8) * 100 + 1 / 2\<rfloor> = 13" by code_simp
  have d: "nat \<lfloor>toDouble 0 * 100 + 1 / 2\<rfloor> = 0" by code_simp
  have m: "digits 100 = ''100''" "digits 33 = ''33''" "digits 13 = ''13''" "digits 0 = ''0''"
    by (simp_all add: digits.simps digit_def)
  show "toFixed2 (js_div 201 200) = ''1.00''"
    using toFixed2_Finite [OF a m(1)] by (simp add: js_div_def)
  show "toFixed2 (js_div 1 3) = ''0.33''"
    using toFixed2_Finite [OF b m(2)] by (simp add: js_div_def)
  show "toFixed2 (js_div 1 8) = ''0.13''"
    using toFixed2_Finite [OF c m(3)] by (simp add: js_div_def)
  show "toFixed2 (js_div 0 4) = ''0.00''"
    using toFixed2_Finite [OF d m(4)] by (simp add: js_div_def)
qed

lemma toFixed2_20: "toFixed2 (Finite (toDouble 20)) = ''20.00''"
proof -
  have d: "toDouble 20 = 20" by code_simp
  have n: "nat \<lfloor>(20::rat) * 100 + 1 / 2\<rfloor> = 2000" by code_simp
  have m: "digits 2000 = ''2000''" by (simp add: digits.simps digit_def)
  show ?thesis using toFixed2_Finite [OF n m] by (simp add: d)
qed

lemma example_three_posts_average:
  "\<exists>r. snd (generateAnalytics fmt
      [post0\<lparr>likes := Some 10\<rparr>, post0\<lparr>likes := Some 30\<rparr>, post0\<lparr>likes := Some 20\<rparr>]) = Inr r
     \<and> averageLikes (engagement r) = ''20.00''"
  by (simp add: generateAnalytics_def post0_def or0_def js_div_def toFixed2_20
      sortDates_def numberOf_def timeRangeOf_def formatDay_def)

lemma example_three_posts_top:
  "\<exists>r. snd (generateAnalytics fmt
      [post0\<lparr>likes := Some 10\<rparr>, post0\<lparr>likes := Some 30\<rparr>, post0\<lparr>likes := Some 20\<rparr>]) = Inr r
     \<and> map top_likes (topTweets (engagement r)) = [Some 30, Some 20, Some 10]"
  by (simp add: generateAnalytics_def post0_def or0_def topEntry_def
      sortDates_def numberOf_def timeRangeOf_def formatDay_def)

text \<open>
  C8. The top posts are the first five of the posts that are not retweets, put in
  descending order of likes (a missing count is 0) by a stable sort: the sorted list is a
  permutation of those posts, it descends, and posts with the same likes keep their
  order. Each entry carries the first 100 characters of the post's text. The report
  that holds them is returned for every list of posts with no timestamp that is
  \<^verbatim>\<open>undefined\<close>; on one with such a timestamp the function throws.
\<close>

theorem topTweets_top5_stable:
  "\<exists>xs. mset xs = mset (filter (\<lambda>t. \<not> isRetweet t) tweets)
     \<and> sorted_wrt (\<lambda>a b. or0 (likes b) \<le> or0 (likes a)) xs
     \<and> (\<forall>k. filter (\<lambda>t. or0 (likes t) = k) xs
              = filter (\<lambda>t. or0 (likes t) = k) (filter (\<lambda>t. \<not> isRetweet t) tweets))
     \<and> (if \<exists>t\<in>set tweets. timestamp t = Undefined
         then snd (generateAnalytics fmt tweets) = Inl ''Invalid time value''
         else \<exists>r. snd (generateAnalytics fmt tweets) = Inr r
                \<and> topTweets (engagement r)
                    = map (\<lambda>t. \<lparr>top_id = id_t t, top_text = take 100 (text_t t),
                                  top_likes = likes t, top_retweetCount = retweetCount t,
                                  top_url = permanentUrl t\<rparr>)
                        (take 5 xs))"
proof -
  let ?key = "\<lambda>t. - int (or0 (likes t))"
  let ?tfe = "filter (\<lambda>t. \<not> isRetweet t) tweets"
  let ?xs = "sort_key ?key ?tfe"
  have perm: "mset ?xs = mset ?tfe" by simp
  have "sorted (map ?key ?xs)" by (rule sorted_sort_key)
  then have srt: "sorted_wrt (\<lambda>a b. or0 (likes b) \<le> or0 (likes a)) ?xs"
    by (simp add: sorted_map)
  have stab: "filter (\<lambda>t. or0 (likes t) = k) ?xs = filter (\<lambda>t. or0 (likes t) = k) ?tfe" for k
    using sort_key_stable [of ?key "- int k" ?tfe] by simp
  have ent: "topEntry = (\<lambda>t. \<lparr>top_id = id_t t, top_text = take 100 (text_t t), top_likes = likes t,
                       top_retweetCount = retweetCount t, top_url = permanentUrl t\<rparr>)"
    by (rule ext) (simp add: topEntry_def)
  have top: "if \<exists>t\<in>set tweets. timestamp t = Undefined
         then snd (generateAnalytics fmt tweets) = Inl ''Invalid time value''
         else \<exists>r. snd (generateAnalytics fmt tweets) = Inr r
                \<and> topTweets (engagement r) = map topEntry (take 5 ?xs)"
  proof (cases "\<exists>t\<in>set tweets. timestamp t = Undefined")
    case True
    then show ?thesis using generateAnalytics_throws [OF True, of fmt] by simp
  next
    case False
    show ?thesis
    proof (cases "tweets = []")
      case True
      then show ?thesis by (simp add: generateAnalytics_def)
    next
      case ne: False
      from generateAnalytics_report [OF ne False, of fmt] show ?thesis using False by simp
    qed
  qed
  show ?thesis
    using perm srt stab top unfolding ent by blast
qed

text \<open>
  The posts whose timestamp is \<^verbatim>\<open>null\<close>: they count in \<open>totalTweets\<close> and take no part
  in the time range, which runs from the least to the greatest of the other timestamps
  (N/A at both ends when there is none), and when there are any a warning that carries
  their number is logged.
\<close>

lemma numbers_of_valid:
  assumes "\<not> (\<exists>t\<in>set tweets. timestamp t = Undefined)"
  shows "numberOf ` set (map timestamp (filter (\<lambda>t. timestamp t \<noteq> Null) tweets))
     = {d. \<exists>t\<in>set tweets. timestamp t = At d}"
proof (intro set_eqI iffI)
  fix d
  assume "d \<in> numberOf ` set (map timestamp (filter (\<lambda>t. timestamp t \<noteq> Null) tweets))"
  then obtain t where t: "t \<in> set tweets" "timestamp t \<noteq> Null" "d = numberOf (timestamp t)"
    by auto
  with assms have "timestamp t \<noteq> Undefined" by auto
  with t show "d \<in> {d. \<exists>t\<in>set tweets. timestamp t = At d}"
    by (cases "timestamp t") (auto simp: numberOf_def)
next
  fix d
  assume "d \<in> {d. \<exists>t\<in>set tweets. timestamp t = At d}"
  then obtain t where "t \<in> set tweets" "timestamp t = At d" by auto
  then show "d \<in> numberOf ` set (map timestamp (filter (\<lambda>t. timestamp t \<noteq> Null) tweets))"
    by (force simp: numberOf_def image_iff)
qed

lemma warned_nulls:
  "tweets \<noteq> [] \<Longrightarrow>
   fst (generateAnalytics fmt tweets) =
     (if 0 < length (filter (\<lambda>t. timestamp t = Null) tweets)
      then [WarnInvalidDates (length (filter (\<lambda>t. timestamp t = Null) tweets))] else [])"
  by (simp add: generateAnalytics_def Let_def)

lemma null_timestamps_excluded:
  assumes "\<not> (\<exists>t\<in>set tweets. timestamp t = Undefined)"
  shows "\<exists>r. snd (generateAnalytics fmt tweets) = Inr r
     \<and> totalTweets r = length tweets
     \<and> timeRange r =
         (if \<forall>t\<in>set tweets. timestamp t = Null
          then \<lparr>range_start = ''N/A'', range_end = ''N/A''\<rparr>
          else \<lparr>range_start = fmt (Min {d. \<exists>t\<in>set tweets. timestamp t = At d}),
                range_end = fmt (Max {d. \<exists>t\<in>set tweets. timestamp t = At d})\<rparr>)
     \<and> (0 < length (filter (\<lambda>t. timestamp t = Null) tweets) \<longrightarrow>
          WarnInvalidDates (length (filter (\<lambda>t. timestamp t = Null) tweets))
            \<in> set (fst (generateAnalytics fmt tweets)))"
proof (cases "tweets = []")
  case True
  then show ?thesis by (simp add: generateAnalytics_def)
next
  case False
  have e: "map timestamp (filter (\<lambda>t. timestamp t \<noteq> Null) tweets) = []
        \<longleftrightarrow> (\<forall>t\<in>set tweets. timestamp t = Null)"
    by (simp add: filter_empty_conv)
  show ?thesis
    using generateAnalytics_report [OF False assms, of fmt] warned_nulls [OF False, of fmt]
    unfolding numbers_of_valid [OF assms] e by simp
qed

lemma example_null_timestamp:
  "\<exists>r. generateAnalytics showDate
       [post0\<lparr>timestamp := At 9\<rparr>, post0\<lparr>timestamp := Null\<rparr>, post0\<lparr>timestamp := At 5\<rparr>]
     = ([WarnInvalidDates 1], Inr r)
     \<and> totalTweets r = 3 \<and> timeRange r = \<lparr>range_start = ''5'', range_end = ''9''\<rparr>"
  by (simp add: generateAnalytics_def Let_def post0_def sortDates_def numberOf_def
      timeRangeOf_def formatDay_def showDate_def digits.simps digit_def)

text \<open>
  C10, the case the code misses. A post whose date is invalid or missing should be left
  out of both ends of the time range, be counted in the total, and be named in the
  count of a warning. The code does so for a timestamp that is \<^verbatim>\<open>null\<close>. A timestamp
  that is missing (\<^verbatim>\<open>undefined\<close>) passes the test \<^verbatim>\<open>t.timestamp !== null\<close>: the post is
  kept among the valid ones, the warning, if there is one, counts the \<^verbatim>\<open>null\<close>
  timestamps only, the sort puts the missing date last, where it is the end of the
  range, and formatting it throws: no report is returned.
\<close>

theorem undefined_timestamp_not_excluded:
  assumes "t \<in> set tweets" and "timestamp t = Undefined"
  shows "snd (generateAnalytics fmt tweets) = Inl ''Invalid time value''
     \<and> fst (generateAnalytics fmt tweets) =
         (if 0 < length (filter (\<lambda>t. timestamp t = Null) tweets)
          then [WarnInvalidDates (length (filter (\<lambda>t. timestamp t = Null) tweets))] else [])"
proof -
  from assms have u: "\<exists>t\<in>set tweets. timestamp t = Undefined" by auto
  from assms have ne: "tweets \<noteq> []" by auto
  show ?thesis
    using generateAnalytics_throws [OF u, of fmt] warned_nulls [OF ne, of fmt] by simp
qed

theorem undefined_timestamp_not_excluded_witness:
  "generateAnalytics showDate [post0\<lparr>timestamp := At 9\<rparr>, post0\<lparr>timestamp := Undefined\<rparr>]
     = ([], Inl ''Invalid time value'')"
  using undefined_timestamp_not_excluded
    [of "post0\<lparr>timestamp := Undefined\<rparr>"
        "[post0\<lparr>timestamp := At 9\<rparr>, post0\<lparr>timestamp := Undefined\<rparr>]" showDate]
  by (simp add: prod_eq_iff post0_def)

section \<open>Properties of the cookie round trip\<close>

lemma unquote_plain [simp]: "unquote ''abc'' = ''abc''"
  by (simp add: unquote_def)

lemma map_filter_Cons_Some: "f x = Some y \<Longrightarrow> List.map_filter f (x # xs) = y # List.map_filter f xs"
  by (simp add: List.map_filter_def)

lemma map_filter_Cons_None: "f x = None \<Longrightarrow> List.map_filter f (x # xs) = List.map_filter f xs"
  by (simp add: List.map_filter_def)

lemma cookieOfEntry_Some:
  assumes "cookieOfEntry e \<noteq> None"
  shows "cookieOfEntry e =
     Some \<lparr>ck_key = entryKey e, ck_value = unquote (entryValue e),
           ck_domain = Some (entryDomain e), ck_path = Some (entryPath e),
           ck_secure = entrySecure e, ck_httpOnly = entryHttpOnly e\<rparr>"
  using assms by (auto simp: cookieOfEntry_def fromJSON_def Let_def split: if_splits)

lemma decodeRecord_all:
  "\<forall>e\<in>set r. cookieOfEntry e \<noteq> None \<Longrightarrow>
   decodeRecord r =
     map (\<lambda>e. \<lparr>ck_key = entryKey e, ck_value = unquote (entryValue e),
                ck_domain = Some (entryDomain e), ck_path = Some (entryPath e),
                ck_secure = entrySecure e, ck_httpOnly = entryHttpOnly e\<rparr>) r"
proof (induction r)
  case Nil
  then show ?case by (simp add: decodeRecord_def List.map_filter_def)
next
  case (Cons e r)
  then have "cookieOfEntry e \<noteq> None" by simp
  from cookieOfEntry_Some [OF this] Cons show ?case
    by (simp add: decodeRecord_def map_filter_Cons_Some)
qed

lemma entryOfCookie_fields:
  assumes "ck_key c \<noteq> []" and "ck_value c \<noteq> []"
  shows "\<exists>e'. entryOfCookie c = Some e'
     \<and> entryKey e' = ck_key c \<and> entryValue e' = ck_value c
     \<and> entryDomain e' = orElse (ck_domain c) ''twitter.com''
     \<and> entryPath e' = orElse (ck_path c) ''/''
     \<and> entrySecure e' \<and> \<not> entryHttpOnly e'"
proof -
  have d: "orElse (ck_domain c) ''twitter.com'' \<noteq> []" and p: "orElse (ck_path c) ''/'' \<noteq> []"
    by (auto simp: orElse_def split: option.splits)
  show ?thesis
    using assms d p
    by (simp add: entryOfCookie_def fromJSON_def toJSON_def entryKey_def entryValue_def
        entryDomain_def entryPath_def entrySecure_def entryHttpOnly_def orElse_def)
qed

lemma entryOfCookie_None: "ck_key c = [] \<or> ck_value c = [] \<Longrightarrow> entryOfCookie c = None"
  by (simp add: entryOfCookie_def)

lemma encodeRecord_fields:
  "list_all2
     (\<lambda>c e'. entryKey e' = ck_key c \<and> entryValue e' = ck_value c
            \<and> entryDomain e' = orElse (ck_domain c) ''twitter.com''
            \<and> entryPath e' = orElse (ck_path c) ''/''
            \<and> entrySecure e' \<and> \<not> entryHttpOnly e')
     (filter (\<lambda>c. ck_key c \<noteq> [] \<and> ck_value c \<noteq> []) cs) (encodeRecord cs)"
proof (induction cs)
  case Nil
  then show ?case by (simp add: encodeRecord_def List.map_filter_def)
next
  case (Cons c cs)
  show ?case
  proof (cases "ck_key c \<noteq> [] \<and> ck_value c \<noteq> []")
    case True
    then obtain e' where e': "entryOfCookie c = Some e'"
      and f: "entryKey e' = ck_key c \<and> entryValue e' = ck_value c
       \<and> entryDomain e' = orElse (ck_domain c) ''twitter.com''
       \<and> entryPath e' = orElse (ck_path c) ''/''
       \<and> entrySecure e' \<and> \<not> entryHttpOnly e'"
      using entryOfCookie_fields [of c] by blast
    have "encodeRecord (c # cs) = e' # encodeRecord cs"
      by (simp add: encodeRecord_def map_filter_Cons_Some e')
    then show ?thesis using True f Cons by simp
  next
    case False
    then have "entryOfCookie c = None" by (intro entryOfCookie_None) simp
    then have "encodeRecord (c # cs) = encodeRecord cs"
      by (simp add: encodeRecord_def map_filter_Cons_None)
    then show ?thesis using False Cons by auto
  qed
qed

lemma encodeRecord_flags:
  assumes "e' \<in> set (encodeRecord cs)"
  shows "entrySecure e' \<and> \<not> entryHttpOnly e'"
proof -
  from encodeRecord_fields [of cs] assms
  obtain c where "entrySecure e' \<and> \<not> entryHttpOnly e'"
    by (auto simp: list_all2_conv_all_nth in_set_conv_nth)
  then show ?thesis .
qed

text \<open>
  C4, as the code has it. For a record whose entries all pass the filter of
  \<^verbatim>\<open>loadCookies\<close>, decoding gives one cookie for each entry, in order, with the key of
  the entry (its key, else its name), its value without one layer of surrounding
  quotes, its domain and path (or the defaults) and its two flags. Whatever cookies the
  client's jar then returns, encoding gives one entry for each of them that has a key
  and a value, in order, with the key, value, domain and path of that cookie (or the
  defaults), and with the secure flag true and the httpOnly flag false. The flags of
  the record are not carried over; the other fields come back as the jar hands them
  back, which the code does not determine.
\<close>

theorem cookie_round_trip:
  assumes "\<forall>e\<in>set r. cookieOfEntry e \<noteq> None"
  shows "decodeRecord r =
       map (\<lambda>e. \<lparr>ck_key = entryKey e, ck_value = unquote (entryValue e),
                  ck_domain = Some (entryDomain e), ck_path = Some (entryPath e),
                  ck_secure = entrySecure e, ck_httpOnly = entryHttpOnly e\<rparr>) r
     \<and> list_all2
         (\<lambda>c e'. entryKey e' = ck_key c \<and> entryValue e' = ck_value c
                \<and> entryDomain e' = orElse (ck_domain c) ''twitter.com''
                \<and> entryPath e' = orElse (ck_path c) ''/''
                \<and> entrySecure e' \<and> \<not> entryHttpOnly e')
         (filter (\<lambda>c. ck_key c \<noteq> [] \<and> ck_value c \<noteq> [])
                 (jar (map setCookieString (decodeRecord r))))
         (roundTrip jar r)"
  using decodeRecord_all [OF assms] encodeRecord_fields [of "jar (map setCookieString (decodeRecord r))"]
  by (simp add: roundTrip_def)

lemma decode_browserCookie:
  "decodeRecord [browserCookie] =
     [\<lparr>ck_key = ''auth_token'', ck_value = ''abc'', ck_domain = Some ''.twitter.com'',
       ck_path = Some ''/'', ck_secure = False, ck_httpOnly = True\<rparr>]"
  by (simp add: browserCookie_def cookieOfEntry_def decodeRecord_def List.map_filter_def
      fromJSON_def entryKey_def entryValue_def entryDomain_def entryPath_def entrySecure_def
      entryHttpOnly_def orElse_def Let_def)

lemma setCookieString_example:
  "map setCookieString (decodeRecord [browserCookie])
     = [''auth_token=abc; Domain=.twitter.com; Path=/; HttpOnly'']"
  by (simp add: decode_browserCookie setCookieString_def orNull_def)

lemma roundTrip_dotlessJar:
  "roundTrip dotlessJar [browserCookie] =
     [\<lparr>e_key = Some ''auth_token'', e_name = None, e_value = Some ''abc'',
       e_domain = Some ''twitter.com'', e_path = Some ''/'',
       e_secure = Some True, e_httpOnly = None\<rparr>]"
  by (simp add: roundTrip_def setCookieString_example dotlessJar_def encodeRecord_def
      List.map_filter_def entryOfCookie_def fromJSON_def toJSON_def orElse_def)

theorem cookie_round_trip_witness:
  "list_all (\<lambda>e. cookieOfEntry e \<noteq> None) [browserCookie]
   \<and> map setCookieString (decodeRecord [browserCookie])
       = [''auth_token=abc; Domain=.twitter.com; Path=/; HttpOnly'']
   \<and> map entryKey (roundTrip dotlessJar [browserCookie]) = [''auth_token'']
   \<and> map entryDomain (roundTrip dotlessJar [browserCookie]) = [''twitter.com'']
   \<and> map entrySecure (roundTrip dotlessJar [browserCookie]) = [True]
   \<and> map entryHttpOnly (roundTrip dotlessJar [browserCookie]) = [False]"
proof -
  have s: "\<forall>e\<in>set [browserCookie]. cookieOfEntry e \<noteq> None"
    by (simp add: browserCookie_def cookieOfEntry_def entryKey_def entryValue_def orElse_def
        fromJSON_def Let_def)
  have g: "map entryKey (roundTrip dotlessJar [browserCookie]) = [''auth_token'']
      \<and> map entryDomain (roundTrip dotlessJar [browserCookie]) = [''twitter.com'']
      \<and> map entrySecure (roundTrip dotlessJar [browserCookie]) = [True]
      \<and> map entryHttpOnly (roundTrip dotlessJar [browserCookie]) = [False]"
    by (simp add: roundTrip_dotlessJar entryKey_def entryDomain_def
        entrySecure_def entryHttpOnly_def orElse_def)
  have s': "list_all (\<lambda>e. cookieOfEntry e \<noteq> None) [browserCookie]" using s by simp
  from cookie_round_trip [OF s, of dotlessJar] s' setCookieString_example g show ?thesis
    by blast
qed

text \<open>
  C4 as stated fails: an entry with \<^verbatim>\<open>secure: false\<close> and \<^verbatim>\<open>httpOnly: true\<close>, which
  passes the filter, cannot come back with its six fields unchanged, whatever the jar
  returns.
\<close>

theorem cookie_round_trip_counterexample:
  "list_all (\<lambda>e. cookieOfEntry e \<noteq> None) [browserCookie]
   \<and> \<not> (\<exists>jar. list_all2 sameCookieFields [browserCookie] (roundTrip jar [browserCookie]))"
proof -
  have s: "list_all (\<lambda>e. cookieOfEntry e \<noteq> None) [browserCookie]"
    by (simp add: browserCookie_def cookieOfEntry_def entryKey_def entryValue_def orElse_def
        fromJSON_def Let_def)
  have b: "\<not> entrySecure browserCookie" by (simp add: browserCookie_def entrySecure_def)
  have "\<not> list_all2 sameCookieFields [browserCookie] (roundTrip jar [browserCookie])" for jar
  proof
    assume "list_all2 sameCookieFields [browserCookie] (roundTrip jar [browserCookie])"
    then obtain e' where e: "roundTrip jar [browserCookie] = [e']"
      and f: "sameCookieFields browserCookie e'"
      by (auto simp: list_all2_Cons1)
    from e have "e' \<in> set (encodeRecord (jar (map setCookieString (decodeRecord [browserCookie]))))"
      by (simp add: roundTrip_def)
    then have "entrySecure e'" using encodeRecord_flags by blast
    with f b show False by (simp add: sameCookieFields_def)
  qed
  with s show ?thesis by blast
qed

section \<open>Properties of the login\<close>

lemma attemptDelays_skip:
  "noLoginEvents es \<Longrightarrow> attemptDelays waited (es @ fs) = attemptDelays waited fs"
proof (induction es)
  case Nil
  then show ?case by simp
next
  case (Cons e es)
  then have "noLoginEvents es" by (simp add: noLoginEvents_def)
  with Cons show ?case by (cases e) (simp_all add: noLoginEvents_def)
qed

lemma attemptDelays_none:
  "noLoginEvents es \<Longrightarrow> attemptDelays waited es = []"
  using attemptDelays_skip [of es waited "[]"] by simp

lemma noLoginEvents_saveCookies: "noLoginEvents (saveCookies w)"
  by (simp add: saveCookies_def noLoginEvents_def Let_def split: sum.splits option.splits)

lemma noLoginEvents_loadCookies: "noLoginEvents (snd (loadCookies w))"
  by (simp add: loadCookies_def noLoginEvents_def Let_def split: sum.splits option.splits)

lemma loginLoop_over: "maxRetries cfg < a \<Longrightarrow> loginLoop cfg w a = (False, [])"
  by (simp add: loginLoop.simps)

lemma loginLoop_backoff:
  "1 \<le> a \<Longrightarrow> a \<le> maxRetries cfg \<Longrightarrow>
   \<exists>k. a \<le> k \<and> k \<le> maxRetries cfg
     \<and> attemptDelays (retryDelay cfg * (a - 1)) (snd (loginLoop cfg w a))
         = map (\<lambda>n. (n, retryDelay cfg * (n - 1))) [a..<Suc k]
     \<and> (k = maxRetries cfg \<and> attemptError (loginOutcome w k) \<noteq> None
          \<longrightarrow> \<not> fst (loginLoop cfg w a))"
proof (induction cfg w a rule: loginLoop.induct)
  case (1 cfg w attempt)
  show ?case
  proof (cases "attemptError (loginOutcome w attempt)")
    case None
    have "attemptDelays (retryDelay cfg * (attempt - 1)) (snd (loginLoop cfg w attempt))
            = [(attempt, retryDelay cfg * (attempt - 1))]"
      using None "1.prems" noLoginEvents_saveCookies [of w]
      by (simp add: loginLoop.simps [of cfg w attempt] attemptDelays_none)
    then show ?thesis using None "1.prems" by (intro exI [of _ attempt]) simp
  next
    case (Some msg)
    show ?thesis
    proof (cases "maxRetries cfg \<le> attempt")
      case True
      have "loginLoop cfg w attempt = (False, [Login attempt, WarnLogin attempt msg])"
        using Some True "1.prems" by (simp add: loginLoop.simps [of cfg w attempt])
      then show ?thesis using "1.prems" by (intro exI [of _ attempt]) auto
    next
      case False
      then have next_ok: "1 \<le> attempt + 1" "attempt + 1 \<le> maxRetries cfg" by simp_all
      have "\<exists>k. attempt + 1 \<le> k \<and> k \<le> maxRetries cfg
          \<and> attemptDelays (retryDelay cfg * (attempt + 1 - 1)) (snd (loginLoop cfg w (attempt + 1)))
              = map (\<lambda>n. (n, retryDelay cfg * (n - 1))) [attempt + 1..<Suc k]
          \<and> (k = maxRetries cfg \<and> attemptError (loginOutcome w k) \<noteq> None
               \<longrightarrow> \<not> fst (loginLoop cfg w (attempt + 1)))"
        using "1.prems" by (intro "1.IH" [OF _ Some False next_ok]) simp
      then obtain k where k: "attempt + 1 \<le> k" "k \<le> maxRetries cfg"
        and d: "attemptDelays (retryDelay cfg * attempt) (snd (loginLoop cfg w (attempt + 1)))
                 = map (\<lambda>n. (n, retryDelay cfg * (n - 1))) [attempt + 1..<Suc k]"
        and f: "k = maxRetries cfg \<and> attemptError (loginOutcome w k) \<noteq> None
                 \<longrightarrow> \<not> fst (loginLoop cfg w (attempt + 1))"
        by (metis add_diff_cancel_right')
      have unfold: "loginLoop cfg w attempt =
          (fst (loginLoop cfg w (attempt + 1)),
           [Login attempt, WarnLogin attempt msg, SetTimeout (retryDelay cfg * attempt)]
             @ snd (loginLoop cfg w (attempt + 1)))"
        using Some False "1.prems"
        by (simp add: loginLoop.simps [of cfg w attempt] split: prod.splits)
      have upt: "[attempt..<Suc k] = attempt # [attempt + 1..<Suc k]"
        using k by (simp add: upt_conv_Cons)
      show ?thesis
        using k d f unfold upt by (intro exI [of _ k]) simp
    qed
  qed
qed

text \<open>
  C6. The attempts of a login run are numbered 1 to \<open>k\<close> for some \<open>k\<close> that is at
  most \<open>maxRetries\<close>; no delay is asked before attempt 1, and the delay asked between
  attempt \<open>n - 1\<close> and attempt \<open>n\<close> is \<open>retryDelay * (n - 1)\<close>; when the attempt
  numbered \<open>maxRetries\<close> is made and fails, the function returns false.
\<close>

theorem login_retries_backoff:
  "\<exists>k\<le>maxRetries cfg.
     attemptDelays 0 (snd (initializeScraper cfg w))
       = map (\<lambda>n. (n, retryDelay cfg * (n - 1))) [1..<Suc k]
     \<and> (0 < k \<and> k = maxRetries cfg \<and> attemptError (loginOutcome w k) \<noteq> None
          \<longrightarrow> \<not> fst (initializeScraper cfg w))"
proof (cases "fst (loadCookies w) \<and> sessionCheck w = Inr True")
  case True
  then have "initializeScraper cfg w = (True, snd (loadCookies w))"
    by (cases "loadCookies w") (simp add: initializeScraper_def)
  then have "attemptDelays 0 (snd (initializeScraper cfg w)) = []"
    using noLoginEvents_loadCookies [of w] by (simp add: attemptDelays_none)
  moreover have "\<not> (0 < (0::nat))" by simp
  ultimately show ?thesis by (intro exI [of _ 0]) simp
next
  case False
  define evs where "evs = snd (loadCookies w)
      @ (if fst (loadCookies w)
         then (case sessionCheck w of Inl msg \<Rightarrow> [WarnCookieCheck msg] | Inr ok \<Rightarrow> [WarnSessionInvalid])
         else []) @ [WarnFreshLogin]"
  have quiet: "noLoginEvents evs"
    using noLoginEvents_loadCookies [of w]
    by (auto simp: evs_def noLoginEvents_def split: sum.splits)
  have init: "initializeScraper cfg w = (fst (loginLoop cfg w 1), evs @ snd (loginLoop cfg w 1))"
    using False
    by (cases "loadCookies w"; cases "loginLoop cfg w 1") (auto simp: initializeScraper_def evs_def)
  show ?thesis
  proof (cases "1 \<le> maxRetries cfg")
    case True
    have "\<exists>k. 1 \<le> k \<and> k \<le> maxRetries cfg
        \<and> attemptDelays (retryDelay cfg * (1 - 1)) (snd (loginLoop cfg w 1))
            = map (\<lambda>n. (n, retryDelay cfg * (n - 1))) [1..<Suc k]
        \<and> (k = maxRetries cfg \<and> attemptError (loginOutcome w k) \<noteq> None
             \<longrightarrow> \<not> fst (loginLoop cfg w 1))"
      using True by (intro loginLoop_backoff) simp_all
    then obtain k where "1 \<le> k" "k \<le> maxRetries cfg"
      and "attemptDelays 0 (snd (loginLoop cfg w 1))
             = map (\<lambda>n. (n, retryDelay cfg * (n - 1))) [1..<Suc k]"
      and "k = maxRetries cfg \<and> attemptError (loginOutcome w k) \<noteq> None
             \<longrightarrow> \<not> fst (loginLoop cfg w 1)"
      by (metis diff_self_eq_0 mult_0_right)
    then show ?thesis
      using init quiet by (intro exI [of _ k]) (simp add: attemptDelays_skip)
  next
    case False
    then have "loginLoop cfg w 1 = (False, [])" by (simp add: loginLoop_over)
    then show ?thesis
      using init quiet by (intro exI [of _ 0]) (simp add: attemptDelays_none)
  qed
qed

theorem login_retries_backoff_witness:
  "attemptDelays 0 (snd (initializeScraper config0 (world0\<lparr>loginOutcome := (\<lambda>n. LoginThrows ''denied'')\<rparr>)))
     = [(1, 0), (2, 3000), (3, 6000), (4, 9000), (5, 12000)]
   \<and> \<not> fst (initializeScraper config0 (world0\<lparr>loginOutcome := (\<lambda>n. LoginThrows ''denied'')\<rparr>))"
  using login_retries_backoff [of config0 "world0\<lparr>loginOutcome := (\<lambda>n. LoginThrows ''denied'')\<rparr>"]
  by (simp add: initializeScraper_def loadCookies_def loginLoop.simps attemptError_def
      config0_def world0_def)

lemma login_third_attempt:
  "initializeScraper config0
     (world0\<lparr>loginOutcome := (\<lambda>n. if n < 3 then Verified False else Verified True)\<rparr>)
   = (True, [WarnLoadCookies ''ENOENT'', WarnFreshLogin,
             Login 1, WarnLogin 1 ''Login verification failed'', SetTimeout 3000,
             Login 2, WarnLogin 2 ''Login verification failed'', SetTimeout 6000,
             Login 3, WarnSaveCookies ''No valid cookies to save from agent!''])"
  by (simp add: initializeScraper_def loadCookies_def loginLoop.simps attemptError_def
      saveCookies_def encodeRecord_def List.map_filter_def config0_def world0_def)

section \<open>Properties of the collection\<close>

text \<open>
  C5, as the code has it. When the profile lookup returns a count that is not zero,
  \<open>maxWanted\<close> is the smaller of the configured maximum and that count. When the
  lookup fails, or returns no count or the count zero, \<open>maxWanted\<close> is the smaller of
  the configured maximum and \<open>10^9\<close>: the configured maximum, when that is at most
  \<open>10^9\<close>.
\<close>

theorem maxWanted_cap:
  "(\<forall>n. profile w = Inr (Some n) \<and> 0 < n \<longrightarrow> maxWanted cfg w = min (maxTweets cfg) n)
   \<and> ((\<exists>msg. profile w = Inl msg) \<or> profile w = Inr None \<or> profile w = Inr (Some 0)
        \<longrightarrow> maxWanted cfg w = min (maxTweets cfg) 1000000000)
   \<and> (maxTweets cfg \<le> 1000000000 \<longrightarrow> min (maxTweets cfg) 1000000000 = maxTweets cfg)"
  by (auto simp: maxWanted_def totalTweetsForUser_def or0_def)

theorem maxWanted_cap_witness:
  "maxWanted config0 (world0\<lparr>profile := Inr (Some 3)\<rparr>) = 3
   \<and> maxWanted config0 (world0\<lparr>profile := Inl ''timeout''\<rparr>) = 10000"
  using maxWanted_cap [of "world0\<lparr>profile := Inr (Some 3)\<rparr>" config0]
        maxWanted_cap [of "world0\<lparr>profile := Inl ''timeout''\<rparr>" config0]
  by (simp add: config0_def world0_def)

text \<open>
  C5 as stated fails: the lookup succeeds with the count 0, and \<open>maxWanted\<close> is the
  configured maximum, not the smaller of the two.
\<close>

theorem maxWanted_zero_count_counterexample:
  "profile (world0\<lparr>profile := Inr (Some 0)\<rparr>) = Inr (Some 0)
   \<and> maxWanted config0 (world0\<lparr>profile := Inr (Some 0)\<rparr>) = 10000
   \<and> min (maxTweets config0) 0 = 0"
  by (simp add: maxWanted_def totalTweetsForUser_def or0_def config0_def world0_def)

lemma identified_Nil [simp]: "identified [] = []"
  by (simp add: identified_def List.map_filter_def)

lemma identified_Cons:
  "identified (raw # rest) = (case rawId raw of None \<Rightarrow> identified rest | Some p \<Rightarrow> p # identified rest)"
  by (simp add: identified_def List.map_filter_def split: option.splits)

lemma collectLoop_shape:
  "results (collectLoop wanted src res cnt)
     = foldl setIfAbsent res (take (max 1 (wanted - cnt)) (identified src))
   \<and> fetched (collectLoop wanted src res cnt)
     = cnt + min (max 1 (wanted - cnt)) (length (identified src))
   \<and> stopped (collectLoop wanted src res cnt) = (max 1 (wanted - cnt) \<le> length (identified src))
   \<and> (\<not> stopped (collectLoop wanted src res cnt) \<longrightarrow> unread (collectLoop wanted src res cnt) = [])"
proof (induction src arbitrary: res cnt)
  case Nil
  then show ?case by simp
next
  case (Cons raw rest)
  show ?case
  proof (cases "rawId raw")
    case None
    then show ?thesis using Cons.IH [of res cnt] by (simp add: identified_Cons)
  next
    case (Some p)
    show ?thesis
    proof (cases "wanted \<le> cnt + 1")
      case True
      then have "max 1 (wanted - cnt) = 1" by simp
      then show ?thesis using Some True by (simp add: identified_Cons Let_def)
    next
      case False
      define n' where "n' = max 1 (wanted - (cnt + 1))"
      define r where "r = collectLoop wanted rest (setIfAbsent res p) (cnt + 1)"
      have m: "max 1 (wanted - cnt) = Suc n'" using False unfolding n'_def by arith
      have step: "collectLoop wanted (raw # rest) res cnt
          = r\<lparr>pauses := (if (cnt + 1) mod 100 = 0 then [RandomDelay] else []) @ pauses r\<rparr>"
        using Some False by (simp add: Let_def r_def)
      have ids: "identified (raw # rest) = p # identified rest"
        using Some by (simp add: identified_Cons)
      have IH: "results r = foldl setIfAbsent (setIfAbsent res p) (take n' (identified rest))
          \<and> fetched r = cnt + 1 + min n' (length (identified rest))
          \<and> stopped r = (n' \<le> length (identified rest))
          \<and> (\<not> stopped r \<longrightarrow> unread r = [])"
        unfolding n'_def r_def by (rule Cons.IH)
      show ?thesis
        unfolding step ids m using IH by simp
    qed
  qed
qed

lemma keys_setIfAbsent:
  "fst ` set (setIfAbsent res p) = insert (fst p) (fst ` set res)"
  by (auto simp: setIfAbsent_def)

lemma distinct_setIfAbsent:
  "distinct (map fst res) \<Longrightarrow> distinct (map fst (setIfAbsent res p))"
  by (simp add: setIfAbsent_def)

lemma keys_foldl_setIfAbsent:
  "fst ` set (foldl setIfAbsent res xs) = fst ` set res \<union> fst ` set xs"
  by (induction xs arbitrary: res) (simp_all add: keys_setIfAbsent)

lemma distinct_foldl_setIfAbsent:
  "distinct (map fst res) \<Longrightarrow> distinct (map fst (foldl setIfAbsent res xs))"
  by (induction xs arbitrary: res) (simp_all add: distinct_setIfAbsent)

lemma map_of_setIfAbsent:
  "map_of (setIfAbsent res p @ xs) = map_of (res @ p # xs)"
proof (cases "fst p \<in> set (map fst res)")
  case True
  then obtain v where "map_of res (fst p) = Some v"
    by (metis map_of_eq_None_iff not_Some_eq set_map)
  then have "map_of (res @ p # xs) k = map_of (res @ xs) k" for k
    by (cases p) (auto simp: map_add_def split: option.splits)
  then show ?thesis using True by (auto simp: setIfAbsent_def)
next
  case False
  then show ?thesis by (simp add: setIfAbsent_def)
qed

lemma first_kept:
  "(i, t) \<in> set (foldl setIfAbsent res xs) \<Longrightarrow> distinct (map fst res)
     \<Longrightarrow> map_of (res @ xs) i = Some t"
proof (induction xs arbitrary: res)
  case Nil
  then show ?case by simp
next
  case (Cons x xs)
  have "map_of (setIfAbsent res x @ xs) i = Some t"
    using Cons.prems by (intro Cons.IH) (simp_all add: distinct_setIfAbsent)
  then show ?case by (simp only: map_of_setIfAbsent)
qed

text \<open>
  C2, as the code has it. Items without identifier are skipped and not counted. The
  count is the number of items with an identifier that were consumed, duplicates
  included: the loop consumes such items until the count reaches \<open>maxWanted\<close> (at
  least one, the test following the increment) or the source ends, whichever comes
  first. The result has no identifier twice, it has exactly the identifiers of the
  items consumed, and under each identifier the first item consumed with it. The loop
  leaves by \<^verbatim>\<open>break\<close> exactly when the source has that many items with an identifier,
  and otherwise reads the source to its end.
\<close>

theorem collect_dedup_and_stop:
  "fetched (collectLoop wanted src [] 0) = min (max 1 wanted) (length (identified src))
   \<and> distinct (map fst (results (collectLoop wanted src [] 0)))
   \<and> set (map fst (results (collectLoop wanted src [] 0)))
       = set (map fst (take (fetched (collectLoop wanted src [] 0)) (identified src)))
   \<and> (\<forall>(i, t)\<in>set (results (collectLoop wanted src [] 0)).
         map_of (take (fetched (collectLoop wanted src [] 0)) (identified src)) i = Some t)
   \<and> (stopped (collectLoop wanted src [] 0) \<longleftrightarrow> max 1 wanted \<le> length (identified src))
   \<and> (\<not> stopped (collectLoop wanted src [] 0) \<longrightarrow> unread (collectLoop wanted src [] 0) = [])"
proof -
  let ?r = "collectLoop wanted src [] 0"
  let ?n = "max 1 wanted"
  from collectLoop_shape [of wanted src "[]" 0]
  have res: "results ?r = foldl setIfAbsent [] (take ?n (identified src))"
    and fet: "fetched ?r = min ?n (length (identified src))"
    and stp: "stopped ?r = (?n \<le> length (identified src))"
    and unr: "\<not> stopped ?r \<longrightarrow> unread ?r = []"
    by simp_all
  have tk: "take (fetched ?r) (identified src) = take ?n (identified src)"
    unfolding fet by (auto simp: min_def)
  have d: "distinct (map fst (results ?r))"
    unfolding res by (simp add: distinct_foldl_setIfAbsent)
  have k: "set (map fst (results ?r)) = set (map fst (take (fetched ?r) (identified src)))"
    unfolding tk unfolding res by (simp add: keys_foldl_setIfAbsent)
  have f: "\<forall>(i, t)\<in>set (results ?r). map_of (take (fetched ?r) (identified src)) i = Some t"
    unfolding tk unfolding res using first_kept [of _ _ "[]" "take ?n (identified src)"] by auto
  show ?thesis using fet d k f stp unr by blast
qed

lemma identified_dupSource:
  "identified dupSource = [(''1'', post0\<lparr>id_t := Some ''1''\<rparr>),
       (''1'', post0\<lparr>id_t := Some ''1'', text_t := ''again''\<rparr>), (''2'', post0\<lparr>id_t := Some ''2''\<rparr>)]"
  by (simp add: dupSource_def identified_def List.map_filter_def rawId_def post0_def)

lemma collectLoop_dupSource:
  "collectLoop 2 dupSource [] 0 =
     \<lparr>results = [(''1'', post0\<lparr>id_t := Some ''1''\<rparr>)], fetched = 2,
      unread = [Some (post0\<lparr>id_t := None\<rparr>), Some (post0\<lparr>id_t := Some ''2''\<rparr>)],
      stopped = True, pauses = []\<rparr>"
  by (simp add: dupSource_def rawId_def setIfAbsent_def post0_def)

theorem collect_dedup_and_stop_witness:
  "fetched (collectLoop 2 dupSource [] 0) = 2
   \<and> results (collectLoop 2 dupSource [] 0) = [(''1'', post0\<lparr>id_t := Some ''1''\<rparr>)]
   \<and> distinct (map fst (results (collectLoop 2 dupSource [] 0)))
   \<and> stopped (collectLoop 2 dupSource [] 0)"
  using collect_dedup_and_stop [of 2 dupSource]
  unfolding collectLoop_dupSource identified_dupSource by simp

text \<open>
  C2 as stated fails: with \<open>maxWanted = 2\<close> and a source whose second identified item
  repeats the first, the loop stops with one post accepted and items left unread; the
  duplicate was counted.
\<close>

theorem collect_counts_duplicates_counterexample:
  "stopped (collectLoop 2 dupSource [] 0)
   \<and> unread (collectLoop 2 dupSource [] 0) \<noteq> []
   \<and> length (results (collectLoop 2 dupSource [] 0)) = 1
   \<and> fetched (collectLoop 2 dupSource [] 0) = 2"
  by (simp add: dupSource_def rawId_def setIfAbsent_def post0_def)

section \<open>Properties of the parent resolution\<close>

lemma fetchedIds_append: "fetchedIds (es @ fs) = fetchedIds es @ fetchedIds fs"
proof (induction es)
  case Nil
  then show ?case by simp
next
  case (Cons e es)
  then show ?case by (cases e) simp_all
qed

lemma parentLoop_fst_Cons:
  "fst (parentLoop get i (t # ts)) =
     (case replyTo t of
        None \<Rightarrow> t # fst (parentLoop get i ts)
      | Some p \<Rightarrow>
          t\<lparr>inReplyToText := Some (case get i p of Inl msg \<Rightarrow> [] | Inr parent \<Rightarrow> parentText parent)\<rparr>
            # fst (parentLoop get (i + 1) ts))"
  by (simp add: parentLoop.simps(2) case_prod_beta Let_def split: option.splits sum.splits)

lemma parentLoop_snd_Cons:
  "snd (parentLoop get i (t # ts)) =
     (case replyTo t of
        None \<Rightarrow> snd (parentLoop get i ts)
      | Some p \<Rightarrow>
          (case get i p of Inl msg \<Rightarrow> [GetTweet p, WarnFetchParent p msg] | Inr parent \<Rightarrow> [GetTweet p])
            @ (if (i + 1) mod 50 = 0 then [RandomDelay] else [])
            @ snd (parentLoop get (i + 1) ts))"
  by (simp add: parentLoop.simps(2) case_prod_beta Let_def split: option.splits sum.splits)

lemma parentLoop_length: "length (fst (parentLoop get i ts)) = length ts"
  by (induction ts arbitrary: i) (simp_all add: parentLoop_fst_Cons split: option.splits)

lemma parentLoop_fetches:
  "fetchedIds (snd (parentLoop get i ts)) = List.map_filter replyTo ts"
  by (induction ts arbitrary: i)
     (simp_all add: parentLoop_snd_Cons fetchedIds_append List.map_filter_def
        split: option.splits sum.splits)

lemma parentLoop_no_replies:
  "filter (\<lambda>t. replyTo t \<noteq> None) ts = [] \<Longrightarrow> parentLoop get i ts = (ts, [])"
  by (induction ts) (simp_all add: parentLoop.simps(2) split: if_splits)

lemma fetchAllParentTweets_loop:
  "fetchAllParentTweets w ts = parentLoop (getTweet w) 0 ts"
  by (simp add: fetchAllParentTweets_def parentLoop_no_replies)

lemma parentLoop_nth:
  "j < length ts \<Longrightarrow> replyTo (ts ! j) = Some p \<Longrightarrow>
   fst (parentLoop get i ts) ! j =
     (ts ! j)\<lparr>inReplyToText :=
        Some (case get (i + length (filter (\<lambda>t. replyTo t \<noteq> None) (take j ts))) p of
                Inl msg \<Rightarrow> [] | Inr parent \<Rightarrow> parentText parent)\<rparr>"
proof (induction ts arbitrary: i j)
  case Nil
  then show ?case by simp
next
  case (Cons t ts)
  show ?case
  proof (cases j)
    case 0
    then show ?thesis using Cons.prems by (simp add: parentLoop_fst_Cons)
  next
    case (Suc j')
    then have j': "j' < length ts" "replyTo (ts ! j') = Some p" using Cons.prems by simp_all
    show ?thesis
      using Cons.IH [OF j', of i] Cons.IH [OF j', of "i + 1"] Suc
      by (simp add: parentLoop_fst_Cons split: option.splits)
  qed
qed

lemma parentLoop_other:
  "j < length ts \<Longrightarrow> replyTo (ts ! j) = None \<Longrightarrow> fst (parentLoop get i ts) ! j = ts ! j"
proof (induction ts arbitrary: i j)
  case Nil
  then show ?case by simp
next
  case (Cons t ts)
  show ?case
  proof (cases j)
    case 0
    then show ?thesis using Cons.prems by (simp add: parentLoop_fst_Cons)
  next
    case (Suc j')
    then have j': "j' < length ts" "replyTo (ts ! j') = None" using Cons.prems by simp_all
    show ?thesis
      using Cons.IH [OF j', of i] Cons.IH [OF j', of "i + 1"] Suc
      by (simp add: parentLoop_fst_Cons split: option.splits)
  qed
qed

lemma parentLoop_warns:
  "j < length ts \<Longrightarrow> replyTo (ts ! j) = Some p \<Longrightarrow>
   get (i + length (filter (\<lambda>t. replyTo t \<noteq> None) (take j ts))) p = Inl msg \<Longrightarrow>
   WarnFetchParent p msg \<in> set (snd (parentLoop get i ts))"
proof (induction ts arbitrary: i j)
  case Nil
  then show ?case by simp
next
  case (Cons t ts)
  show ?case
  proof (cases j)
    case 0
    then show ?thesis using Cons.prems by (simp add: parentLoop_snd_Cons)
  next
    case (Suc j')
    then have j': "j' < length ts" "replyTo (ts ! j') = Some p" using Cons.prems by simp_all
    show ?thesis
    proof (cases "replyTo t")
      case None
      then have "get (i + length (filter (\<lambda>t. replyTo t \<noteq> None) (take j' ts))) p = Inl msg"
        using Cons.prems(3) Suc by simp
      from Cons.IH [OF j' this] show ?thesis using None by (simp add: parentLoop_snd_Cons)
    next
      case (Some q)
      then have "get (i + 1 + length (filter (\<lambda>t. replyTo t \<noteq> None) (take j' ts))) p = Inl msg"
        using Cons.prems(3) Suc by simp
      from Cons.IH [OF j' this] show ?thesis using Some by (simp add: parentLoop_snd_Cons)
    qed
  qed
qed

text \<open>
  C9. When the fetch of the parent of a reply fails, whatever the message, the reply
  gets the empty string as \<open>inReplyToText\<close> and a warning with the parent and the
  message is logged; the batch goes on: it keeps its length, the parent of every reply
  is asked for, in order, and every reply has its \<open>inReplyToText\<close> set. The call that
  fails is the one numbered by the replies before the post.
\<close>

theorem parent_failure_is_local:
  assumes "j < length tweets"
    and "replyTo (tweets ! j) = Some p"
    and "getTweet w (length (filter (\<lambda>t. replyTo t \<noteq> None) (take j tweets))) p = Inl msg"
  shows "inReplyToText (fst (fetchAllParentTweets w tweets) ! j) = Some []
     \<and> WarnFetchParent p msg \<in> set (snd (fetchAllParentTweets w tweets))
     \<and> length (fst (fetchAllParentTweets w tweets)) = length tweets
     \<and> fetchedIds (snd (fetchAllParentTweets w tweets)) = List.map_filter replyTo tweets
     \<and> (\<forall>k<length tweets. replyTo (tweets ! k) \<noteq> None
           \<longrightarrow> inReplyToText (fst (fetchAllParentTweets w tweets) ! k) \<noteq> None)"
proof -
  have a: "inReplyToText (fst (fetchAllParentTweets w tweets) ! j) = Some []"
    using assms parentLoop_nth [of j tweets p "getTweet w" 0]
    by (simp add: fetchAllParentTweets_loop)
  have b: "WarnFetchParent p msg \<in> set (snd (fetchAllParentTweets w tweets))"
    using assms parentLoop_warns [of j tweets p "getTweet w" 0 msg]
    by (simp add: fetchAllParentTweets_loop)
  have c: "inReplyToText (fst (fetchAllParentTweets w tweets) ! k) \<noteq> None"
    if "k < length tweets" "replyTo (tweets ! k) \<noteq> None" for k
  proof -
    from that obtain q where "replyTo (tweets ! k) = Some q" by auto
    from parentLoop_nth [OF that(1) this, of "getTweet w" 0] show ?thesis
      by (simp add: fetchAllParentTweets_loop)
  qed
  show ?thesis
    using a b c by (simp add: fetchAllParentTweets_loop parentLoop_length parentLoop_fetches)
qed

lemma fetch_replyBatch:
  "fetchAllParentTweets parentWorld replyBatch =
     ([post0\<lparr>id_t := Some ''1'', inReplyToStatusId := Some ''p1'', inReplyToText := Some []\<rparr>,
       post0\<lparr>id_t := Some ''2''\<rparr>,
       post0\<lparr>id_t := Some ''3'', inReplyToStatusId := Some ''p2'', inReplyToText := Some ''parent''\<rparr>],
      [GetTweet ''p1'', WarnFetchParent ''p1'' ''not found'', GetTweet ''p2''])"
  by (simp add: fetchAllParentTweets_def parentLoop.simps(2) replyBatch_def parentWorld_def
      world0_def replyTo_def parentText_def post0_def)

theorem parent_failure_is_local_witness:
  "map inReplyToText (fst (fetchAllParentTweets parentWorld replyBatch))
     = [Some [], None, Some ''parent'']
   \<and> snd (fetchAllParentTweets parentWorld replyBatch)
     = [GetTweet ''p1'', WarnFetchParent ''p1'' ''not found'', GetTweet ''p2'']"
proof -
  have "0 < length replyBatch" and "replyTo (replyBatch ! 0) = Some ''p1''"
    and "getTweet parentWorld (length (filter (\<lambda>t. replyTo t \<noteq> None) (take 0 replyBatch))) ''p1''
           = Inl ''not found''"
    by (simp_all add: replyBatch_def parentWorld_def world0_def replyTo_def)
  from parent_failure_is_local [OF this] show ?thesis
    unfolding fetch_replyBatch by (simp add: post0_def)
qed

section \<open>Properties of the order of the stages\<close>

lemma run_replyWorld:
  "run config0 replyWorld =
     [WarnLoadCookies ''ENOENT'', WarnFreshLogin, Login 1,
      WarnSaveCookies ''No valid cookies to save from agent!'',
      WarnProfile ''no profile'',
      WriteFile RawTweets, WriteFile RawUrls, GenerateAnalytics, WriteFile Stats, WriteFile Summary,
      GetTweet ''p1'', WarnFetchParent ''p1'' ''not found'', GetTweet ''p2'',
      WriteFile RawTweets, WriteFile RawUrls, GenerateAnalytics, WriteFile Stats, WriteFile Summary,
      WriteFile FineTuning, PromptSample, Logout]"
  by (simp add: run_def missingEnv_def isSet_def replyWorld_def parentWorld_def world0_def config0_def
      initializeScraper_def loadCookies_def loginLoop.simps attemptError_def
      saveCookies_def encodeRecord_def List.map_filter_def
      collectMainTweets_def maxWanted_def totalTweetsForUser_def rawId_def setIfAbsent_def
      replyBatch_def post0_def saveTweets_def generateAnalytics_def
      sortDates_def numberOf_def timeRangeOf_def formatDay_def Let_def
      fetchAllParentTweets_def parentLoop.simps(2) replyTo_def parentText_def
      saveFineTuneData_def showSampleTweets_def cleanup_def)

lemma quiet_append [simp]: "quiet (es @ fs) \<longleftrightarrow> quiet es \<and> quiet fs"
  by (simp add: quiet_def)

lemma quiet_Nil [simp]: "quiet []"
  by (simp add: quiet_def)

lemma quiet_noFetch: "quiet es \<Longrightarrow> noFetch es"
  by (induction es) (simp_all add: quiet_def noFetch_def)

lemma quiet_aggregations: "quiet es \<Longrightarrow> aggregations es = 0"
  by (induction es) (simp_all add: quiet_def aggregations_def)

lemma noFetch_append [simp]: "noFetch (es @ fs) \<longleftrightarrow> noFetch es \<and> noFetch fs"
  by (simp add: noFetch_def)

lemma aggregations_append [simp]: "aggregations (es @ fs) = aggregations es + aggregations fs"
  by (simp add: aggregations_def)

lemma noFetch_Cons [simp]: "noFetch (e # es) \<longleftrightarrow> \<not> isFetch e \<and> noFetch es"
  by (simp add: noFetch_def)

lemma noFetch_Nil [simp]: "noFetch []"
  by (simp add: noFetch_def)

lemma aggregations_Cons [simp]:
  "aggregations (e # es) = (if isAggregate e then 1 else 0) + aggregations es"
  by (simp add: aggregations_def)

lemma aggregations_Nil [simp]: "aggregations [] = 0"
  by (simp add: aggregations_def)

lemma quiet_loadCookies: "quiet (snd (loadCookies w))"
  by (simp add: loadCookies_def quiet_def Let_def split: sum.splits option.splits)

lemma quiet_saveCookies: "quiet (saveCookies w)"
  by (simp add: saveCookies_def quiet_def Let_def split: sum.splits option.splits)

lemma quiet_loginLoop: "quiet (snd (loginLoop cfg w a))"
proof (induction cfg w a rule: loginLoop.induct)
  case (1 cfg w attempt)
  show ?case
  proof (cases "attempt \<le> maxRetries cfg")
    case False
    then show ?thesis by (simp add: loginLoop.simps [of cfg w attempt])
  next
    case True
    show ?thesis
    proof (cases "attemptError (loginOutcome w attempt)")
      case None
      then show ?thesis
        using True quiet_saveCookies [of w]
        by (simp add: loginLoop.simps [of cfg w attempt] quiet_def)
    next
      case (Some msg)
      show ?thesis
      proof (cases "maxRetries cfg \<le> attempt")
        case last: True
        then show ?thesis using True Some by (simp add: loginLoop.simps [of cfg w attempt] quiet_def)
      next
        case more: False
        from "1.IH" [OF True Some more] have "quiet (snd (loginLoop cfg w (attempt + 1)))" .
        then show ?thesis
          using True Some more
          by (auto simp: loginLoop.simps [of cfg w attempt] quiet_def split: prod.splits)
      qed
    qed
  qed
qed

lemma quiet_initializeScraper: "quiet (snd (initializeScraper cfg w))"
  using quiet_loadCookies [of w] quiet_loginLoop [of cfg w 1]
  by (cases "loadCookies w"; cases "loginLoop cfg w 1")
     (auto simp: initializeScraper_def quiet_def split: sum.splits)

lemma quiet_collectLoop: "quiet (pauses (collectLoop wanted src res cnt))"
  by (induction src arbitrary: res cnt) (simp_all add: quiet_def Let_def split: option.splits)

lemma quiet_collectMainTweets: "quiet (snd (collectMainTweets cfg w))"
  using quiet_collectLoop [of "maxWanted cfg w" "searchItems w" "[]" 0]
  by (simp add: collectMainTweets_def Let_def quiet_def split: sum.splits option.splits)

lemma quiet_generateAnalytics: "quiet (fst (generateAnalytics fmt tweets))"
  by (simp add: generateAnalytics_def Let_def quiet_def)

lemma saveTweets_trace:
  "noFetch (snd (saveTweets w call tweets)) \<and> aggregations (snd (saveTweets w call tweets)) \<le> 1"
  using quiet_generateAnalytics [of "formatDate w" tweets]
  by (cases "generateAnalytics (formatDate w) tweets")
     (auto simp: saveTweets_def Let_def noFetch_def aggregations_def quiet_def list_all_iff
        split: option.splits sum.splits)

lemma saveFineTuneData_trace:
  "noFetch (snd (saveFineTuneData w tweets)) \<and> aggregations (snd (saveFineTuneData w tweets)) \<le> 1"
  using saveTweets_trace [of w 2 tweets]
  by (cases "saveTweets w 2 tweets")
     (auto simp: saveFineTuneData_def noFetch_def aggregations_def split: sum.splits option.splits)

lemma noAggregate_parentLoop: "noAggregate (snd (parentLoop get i ts))"
  by (induction ts arbitrary: i)
     (simp_all add: parentLoop_snd_Cons noAggregate_def split: option.splits sum.splits)

lemma noAggregate_fetchAllParentTweets: "noAggregate (snd (fetchAllParentTweets w ts))"
  by (simp add: fetchAllParentTweets_loop noAggregate_parentLoop)

lemma quiet_showSampleTweets: "quiet (showSampleTweets w ts)"
  by (simp add: showSampleTweets_def quiet_def)

lemma quiet_cleanup: "quiet (cleanup w)"
  by (simp add: cleanup_def quiet_def split: option.splits)

lemma staged_whole:
  "noFetch es \<Longrightarrow> aggregations es \<le> 1 \<Longrightarrow>
   \<exists>before parents after.
      es = before @ parents @ after
    \<and> noFetch before \<and> noAggregate parents \<and> noFetch after
    \<and> aggregations before \<le> 1 \<and> aggregations after \<le> 1
    \<and> (list_ex isFetch parents \<longrightarrow> aggregations before = 1)"
  by (intro exI [of _ es] exI [of _ "[]"]) (simp add: noAggregate_def noFetch_def aggregations_def)

lemma saveTweets_done:
  "saveTweets w call tweets = (Inr report, evs) \<Longrightarrow> aggregations evs = 1"
  using quiet_generateAnalytics [of "formatDate w" tweets]
  by (cases "generateAnalytics (formatDate w) tweets")
     (auto simp: saveTweets_def Let_def aggregations_def quiet_def list_all_iff
        filter_empty_conv split: option.splits sum.splits)

lemma staged_quiet:
  "quiet es \<Longrightarrow>
   \<exists>before parents after.
      es = before @ parents @ after
    \<and> noFetch before \<and> noAggregate parents \<and> noFetch after
    \<and> aggregations before \<le> 1 \<and> aggregations after \<le> 1
    \<and> (list_ex isFetch parents \<longrightarrow> aggregations before = 1)"
  by (rule staged_whole) (simp_all add: quiet_noFetch quiet_aggregations)

text \<open>
  C3, as the code has it. The trace of every run falls into three parts: no parent is
  fetched in the first and in the last, and nothing is aggregated in the middle one;
  the first and the last part hold at most one aggregation each, and when a parent is
  fetched at all the first part holds exactly one. So parent resolution is one stage
  with no aggregation in it, the aggregation of the final save comes after every
  fetch of a parent, and one aggregation, that of the save of the posts as collected,
  has run before the first fetch.
\<close>

theorem parents_between_aggregations:
  "\<exists>before parents after.
      run cfg w = before @ parents @ after
    \<and> noFetch before \<and> noAggregate parents \<and> noFetch after
    \<and> aggregations before \<le> 1 \<and> aggregations after \<le> 1
    \<and> (list_ex isFetch parents \<longrightarrow> aggregations before = 1)"
proof (cases "0 < length (missingEnv w)")
  case True
  then have "run cfg w = [ErrorMissingEnv (missingEnv w), ProcessExit 1]"
    by (simp add: run_def)
  moreover have "quiet [ErrorMissingEnv (missingEnv w), ProcessExit 1]"
    by (simp add: quiet_def)
  ultimately show ?thesis using staged_quiet by metis
next
  case env: False
  obtain ok ev1 where init: "initializeScraper cfg w = (ok, ev1)" by force
  have q1: "quiet ev1" using quiet_initializeScraper [of cfg w] init by simp
  show ?thesis
  proof (cases ok)
    case False
    then have "run cfg w = ev1 @ [ErrorInit]" using env init by (simp add: run_def)
    moreover have "quiet (ev1 @ [ErrorInit])" using q1 by (simp add: quiet_def)
    ultimately show ?thesis using staged_quiet by metis
  next
    case True
    obtain res ev2 where coll: "collectMainTweets cfg w = (res, ev2)" by force
    have q2: "quiet ev2" using quiet_collectMainTweets [of cfg w] coll by simp
    show ?thesis
    proof (cases res)
      case (Inl msg)
      then have "run cfg w = ev1 @ ev2 @ [ErrorPipeline msg] @ cleanup w"
        using env init True coll by (simp add: run_def)
      moreover have "quiet (ev1 @ ev2 @ [ErrorPipeline msg] @ cleanup w)"
        using q1 q2 quiet_cleanup [of w] by (simp add: quiet_def)
      ultimately show ?thesis using staged_quiet by metis
    next
      case (Inr mainTweets)
      show ?thesis
      proof (cases "length mainTweets = 0")
        case True
        then have "run cfg w = ev1 @ ev2 @ [WarnNoTweetsDone]"
          using env init \<open>ok\<close> coll Inr by (simp add: run_def)
        moreover have "quiet (ev1 @ ev2 @ [WarnNoTweetsDone])"
          using q1 q2 by (simp add: quiet_def)
        ultimately show ?thesis using staged_quiet by metis
      next
        case some: False
        obtain r3 ev3 where save1: "saveTweets w 1 mainTweets = (r3, ev3)" by force
        have s3: "noFetch ev3" "aggregations ev3 \<le> 1"
          using saveTweets_trace [of w 1 mainTweets] save1 by simp_all
        show ?thesis
        proof (cases r3)
          case (Inl msg)
          then have "run cfg w = ev1 @ ev2 @ ev3 @ [ErrorPipeline msg] @ cleanup w"
            using env init \<open>ok\<close> coll Inr some save1 by (simp add: run_def)
          moreover have "noFetch (ev1 @ ev2 @ ev3 @ [ErrorPipeline msg] @ cleanup w)"
            using q1 q2 s3 quiet_cleanup [of w] by (simp add: quiet_noFetch)
          moreover have "aggregations (ev1 @ ev2 @ ev3 @ [ErrorPipeline msg] @ cleanup w) \<le> 1"
            using q1 q2 s3 quiet_cleanup [of w]
            by (simp add: quiet_aggregations)
          ultimately show ?thesis using staged_whole by metis
        next
          case (Inr report)
          obtain enriched ev4 where par: "fetchAllParentTweets w mainTweets = (enriched, ev4)"
            by force
          obtain r5 ev5 where save2: "saveFineTuneData w enriched = (r5, ev5)" by force
          define rest where "rest = (case r5 of Some msg \<Rightarrow> [ErrorPipeline msg] @ cleanup w
                                      | None \<Rightarrow> showSampleTweets w enriched @ cleanup w)"
          have shape: "run cfg w = (ev1 @ ev2 @ ev3) @ ev4 @ (ev5 @ rest)"
            using env init \<open>ok\<close> coll \<open>res = Inr mainTweets\<close> some save1 Inr par save2
            by (simp add: run_def rest_def split: option.splits)
          have qr: "quiet rest"
            using quiet_cleanup [of w] quiet_showSampleTweets [of w enriched]
            by (simp add: rest_def quiet_def split: option.splits)
          have b1: "noFetch (ev1 @ ev2 @ ev3)" using q1 q2 s3 by (simp add: quiet_noFetch)
          have b2: "aggregations (ev1 @ ev2 @ ev3) = 1"
            using q1 q2 saveTweets_done [of w 1 mainTweets report ev3] save1 Inr
            by (simp add: quiet_aggregations)
          have p: "noAggregate ev4"
            using noAggregate_fetchAllParentTweets [of w mainTweets] par by simp
          have a1: "noFetch (ev5 @ rest)"
            using saveFineTuneData_trace [of w enriched] save2 qr by (simp add: quiet_noFetch)
          have a2: "aggregations (ev5 @ rest) \<le> 1"
            using saveFineTuneData_trace [of w enriched] save2 qr by (simp add: quiet_aggregations)
          show ?thesis
            using shape b1 b2 p a1 a2
            by (intro exI [of _ "ev1 @ ev2 @ ev3"] exI [of _ ev4] exI [of _ "ev5 @ rest"]) simp
        qed
      qed
    qed
  qed
qed

theorem parents_between_aggregations_witness:
  "run config0 replyWorld =
     [WarnLoadCookies ''ENOENT'', WarnFreshLogin, Login 1,
      WarnSaveCookies ''No valid cookies to save from agent!'',
      WarnProfile ''no profile'',
      WriteFile RawTweets, WriteFile RawUrls, GenerateAnalytics, WriteFile Stats, WriteFile Summary]
     @ [GetTweet ''p1'', WarnFetchParent ''p1'' ''not found'', GetTweet ''p2'']
     @ [WriteFile RawTweets, WriteFile RawUrls, GenerateAnalytics, WriteFile Stats, WriteFile Summary,
        WriteFile FineTuning, PromptSample, Logout]"
  using parents_between_aggregations [of config0 replyWorld]
  unfolding run_replyWorld by simp

text \<open>
  C3 as stated fails: in a run that collects a reply, the analytics are generated
  (by the first \<^verbatim>\<open>saveTweets\<close>) before the parent of the reply is fetched.
\<close>

theorem aggregation_before_parents_counterexample:
  "\<not> aggregationAfterParents (run config0 replyWorld)"
  unfolding run_replyWorld by simp

end
